theory Spec2Isabelle
  imports Main "HOL-Library.Word"
begin

unbundle bit_operations_syntax

section \<open>Machine types\<close>

text \<open>
  The drivers work on C \<open>unsigned int\<close> and \<open>s32\<close> values and on bytes. Both 32-bit types
  are \<open>32 word\<close>; \<open>unat\<close> reads a value as \<open>unsigned int\<close>, \<open>sint\<close> as \<open>int\<close>/\<open>s32\<close>.
\<close>

type_synonym u8 = "8 word"
type_synonym u32 = "32 word"
type_synonym s32 = "32 word"

section \<open>The register map the drivers talk to\<close>

text \<open>
  A kernel function returns \<open>0\<close> or a negative errno in an \<open>int\<close>. Reading functions are
  modelled with a sum: \<open>Inl\<close> carries what the C function returns when it fails, \<open>Inr\<close> what
  it stores through its out-parameter when it returns \<open>0\<close>. \<open>Out_of_bounds\<close> marks an array
  access outside the array, which C does not check, \<open>Divide_error\<close> a division by
  zero and \<open>Undefined_shift\<close> a shift of a 32-bit operand by 32 bits or more, which C
  leaves undefined.
\<close>

datatype error = Errno int | Out_of_bounds | Divide_error | Undefined_shift

text \<open>
  Modelled from the spec: \<open>struct regmap\<close> and the bus behind it (drivers/base/regmap) are
  not part of the driver sources. The spec describes the transport as point-to-point
  request/response, each request answering with a value or an error. The model keeps the
  device registers and the outcomes of the coming requests: \<open>0\<close> for a request that
  succeeds, the errno otherwise; a request beyond the end of the list succeeds.
\<close>

record regmap =
  regs :: "nat \<Rightarrow> u32"
  faults :: "int list"

definition bus_request :: "regmap \<Rightarrow> int \<times> regmap" where
  "bus_request rm =
     (case faults rm of [] \<Rightarrow> (0, rm) | e # es \<Rightarrow> (e, rm\<lparr>faults := es\<rparr>))"

definition fault_free :: "regmap \<Rightarrow> bool" where
  "fault_free rm = list_all (\<lambda>e. e = 0) (faults rm)"

text \<open>
  Modelled from the spec: \<open>regmap_read\<close> (drivers/base/regmap/regmap.c) is absent; it is one
  request that returns the register's value or the error.
\<close>

definition regmap_read :: "nat \<Rightarrow> regmap \<Rightarrow> (int + u32) \<times> regmap" where
  "regmap_read r rm =
     (case bus_request rm of
        (e, rm') \<Rightarrow> if e \<noteq> 0 then (Inl e, rm') else (Inr (regs rm' r), rm'))"

text \<open>
  Modelled from the spec: \<open>regmap_update_bits\<close> is absent; it replaces the bits of the
  register selected by the mask and leaves the others, or fails without writing.
\<close>

definition regmap_update_bits :: "nat \<Rightarrow> u32 \<Rightarrow> u32 \<Rightarrow> regmap \<Rightarrow> int \<times> regmap" where
  "regmap_update_bits r m v rm =
     (case bus_request rm of
        (e, rm') \<Rightarrow>
          if e \<noteq> 0 then (e, rm')
          else (0, rm'\<lparr>regs := (regs rm')(r := (regs rm' r AND NOT m) OR (v AND m))\<rparr>))"

subsection \<open>Register fields\<close>

text \<open>
  Modelled from the spec: \<open>GENMASK(h, l)\<close> (linux/bits.h) is absent; it is the word whose
  bits \<open>l\<close> to \<open>h\<close> are set, computed here on 32 bits as the macro computes it.
\<close>

definition GENMASK :: "nat \<Rightarrow> nat \<Rightarrow> u32" where
  "GENMASK h l = (NOT 0 - push_bit l 1 + 1) AND drop_bit (31 - h) (NOT 0)"

text \<open>
  Modelled from the spec: \<open>hweight_long\<close> (linux/bitops.h) is absent; it counts the bits
  set in its argument, which the spec calls the field's width.
\<close>

definition hweight_long :: "u32 \<Rightarrow> nat" where
  "hweight_long w = length (filter (bit w) [0..<32])"

text \<open>
  Modelled from the spec: \<open>struct reg_field\<close> and the macro \<open>REG_FIELD(reg, lsb, msb)\<close>
  (linux/regmap.h), which the field tables are written with, are absent; a field is a
  register address with its first and last bit.
\<close>

record reg_field =
  rf_reg :: nat
  rf_lsb :: nat
  rf_msb :: nat

definition REG_FIELD :: "nat \<Rightarrow> nat \<Rightarrow> nat \<Rightarrow> reg_field" where
  "REG_FIELD r l m = \<lparr>rf_reg = r, rf_lsb = l, rf_msb = m\<rparr>"

text \<open>
  Modelled from the spec: \<open>struct regmap_field\<close> (drivers/base/regmap/internal.h, which
  the codec includes to read \<open>fields[field]->mask\<close>) is absent; it holds the register, the
  shift and the mask of a field, the spec's address and bit range.
\<close>

record regmap_field =
  f_reg :: nat
  f_shift :: nat
  f_mask :: u32

text \<open>
  Modelled from the spec: \<open>devm_regmap_field_alloc\<close> is absent; it turns the bit range of
  a \<open>reg_field\<close> into a shift and a mask.
\<close>

definition devm_regmap_field_alloc :: "reg_field \<Rightarrow> regmap_field" where
  "devm_regmap_field_alloc rf =
     \<lparr>f_reg = rf_reg rf, f_shift = rf_lsb rf, f_mask = GENMASK (rf_msb rf) (rf_lsb rf)\<rparr>"

text \<open>
  Modelled from the spec: \<open>regmap_field_read\<close> is absent; the spec's
  \<open>readField(address, bitRange)\<close> returns the field's raw value or the error.
\<close>

definition regmap_field_read :: "regmap_field \<Rightarrow> regmap \<Rightarrow> (int + u32) \<times> regmap" where
  "regmap_field_read f rm =
     (case regmap_read (f_reg f) rm of
        (Inl e, rm') \<Rightarrow> (Inl e, rm')
      | (Inr reg_val, rm') \<Rightarrow> (Inr (drop_bit (f_shift f) (reg_val AND f_mask f)), rm'))"

text \<open>
  Modelled from the spec: \<open>regmap_field_write\<close> is absent; the spec's
  \<open>writeField(address, bitRange, value)\<close> writes the low bits of the value that cover the
  field's width.
\<close>

definition regmap_field_write :: "regmap_field \<Rightarrow> u32 \<Rightarrow> regmap \<Rightarrow> int \<times> regmap" where
  "regmap_field_write f v rm =
     regmap_update_bits (f_reg f) (f_mask f) (push_bit (f_shift f) v) rm"

section \<open>The field-group codec\<close>

text \<open>
  \<open>regmap_group_read\<close> and \<open>regmap_group_write\<close> of the AFE4410 core. \<open>group\<close> points into
  a row of field indices ended by \<open>0\<close>; the list is the memory from the pointer on, and
  walking off its end is \<open>Out_of_bounds\<close>, as is a field index outside \<open>fields\<close>
  (\<open>flds\<close>, \<open>grp\<close> and \<open>fld\<close> below, as the C names are taken in HOL).
  The loop of \<open>regmap_group_read\<close> carries \<open>*val\<close> and \<open>current_bit_shift\<close>. The function
  accumulates in the caller's variable itself: it stores \<open>0\<close> there first and ORs every
  field into it as soon as the field is read. When a field read fails the function
  returns the error code at once, and what it has accumulated by then stays in the
  caller's variable. The result therefore is \<open>Inr\<close> of \<open>*val\<close> when the function returns
  \<open>0\<close>, and otherwise \<open>Inl\<close> of the failure together with what \<open>*val\<close> holds at that
  moment. \<open>field_val << current_bit_shift\<close> is a shift of an \<open>unsigned int\<close>: with 32 bits
  or more in \<open>current_bit_shift\<close> it is \<open>Undefined_shift\<close>, and so is
  \<open>val >>= hweight_long(mask)\<close> of \<open>regmap_group_write\<close> for a mask of 32 bits.
\<close>

fun group_read_loop ::
  "regmap_field list \<Rightarrow> nat list \<Rightarrow> u32 \<Rightarrow> nat \<Rightarrow> regmap \<Rightarrow>
     (error \<times> u32 + u32) \<times> regmap" where
  "group_read_loop flds [] val current_bit_shift rm = (Inl (Out_of_bounds, val), rm)"
| "group_read_loop flds (fld # grp) val current_bit_shift rm =
     (if fld = 0 then (Inr val, rm)
      else if length flds \<le> fld then (Inl (Out_of_bounds, val), rm)
      else case regmap_field_read (flds ! fld) rm of
             (Inl ret, rm') \<Rightarrow> (Inl (Errno ret, val), rm')
           | (Inr field_val, rm') \<Rightarrow>
               if 32 \<le> current_bit_shift then (Inl (Undefined_shift, val), rm')
               else group_read_loop flds grp
                      (val OR push_bit current_bit_shift field_val)
                      (current_bit_shift + hweight_long (f_mask (flds ! fld))) rm')"

definition regmap_group_read ::
  "regmap_field list \<Rightarrow> nat list \<Rightarrow> regmap \<Rightarrow> (error \<times> u32 + u32) \<times> regmap" where
  "regmap_group_read flds grp rm = group_read_loop flds grp 0 0 rm"

fun regmap_group_write ::
  "regmap_field list \<Rightarrow> nat list \<Rightarrow> u32 \<Rightarrow> regmap \<Rightarrow> (error + unit) \<times> regmap" where
  "regmap_group_write flds [] val rm = (Inl Out_of_bounds, rm)"
| "regmap_group_write flds (fld # grp) val rm =
     (if fld = 0 then (Inr (), rm)
      else if length flds \<le> fld then (Inl Out_of_bounds, rm)
      else case regmap_field_write (flds ! fld) val rm of
             (ret, rm') \<Rightarrow>
               if ret \<noteq> 0 then (Inl (Errno ret), rm')
               else if 32 \<le> hweight_long (f_mask (flds ! fld))
               then (Inl Undefined_shift, rm')
               else regmap_group_write flds grp
                      (drop_bit (hweight_long (f_mask (flds ! fld))) val) rm')"

subsection \<open>The AFE4410 field and group tables\<close>

definition AFE4410_TIA_GAIN_SEP23 :: nat where "AFE4410_TIA_GAIN_SEP23 = 0x1f"
definition AFE4410_TIA_GAIN_SEP :: nat where "AFE4410_TIA_GAIN_SEP = 0x20"
definition AFE4410_TIA_GAIN :: nat where "AFE4410_TIA_GAIN = 0x21"
definition AFE4410_LEDCNTRL2 :: nat where "AFE4410_LEDCNTRL2 = 0x24"
definition AFE4410_OFFDAC :: nat where "AFE4410_OFFDAC = 0x3a"
definition AFE4410_OFFDAC_LMSB :: nat where "AFE4410_OFFDAC_LMSB = 0x3e"
definition AFE4410_FIFO :: nat where "AFE4410_FIFO = 0x42"

text \<open>
  Modelled from the spec: afe440x.h, which defines the register address
  \<open>AFE440X_LEDCNTRL\<close>, is absent; the table takes the address as its argument.
  The table is \<open>afe4410_reg_fields\<close>, indexed by \<open>enum afe4410_fields\<close>. The enumeration
  starts at \<open>F_TIA_GAIN_SEP2_LSB = 1\<close>, so entry \<open>0\<close> is the zero-initialised \<open>reg_field\<close>
  and index \<open>0\<close> is free to end a group.
\<close>

definition afe4410_reg_fields :: "nat \<Rightarrow> reg_field list" where
  "afe4410_reg_fields AFE440X_LEDCNTRL =
    [ REG_FIELD 0 0 0,
      \<comment> \<open>Gains: F_TIA_GAIN_SEP2_LSB = 1, F_TIA_CF_SEP2, F_TIA_GAIN_SEP2_MSB\<close>
      REG_FIELD AFE4410_TIA_GAIN_SEP23 0 2,
      REG_FIELD AFE4410_TIA_GAIN_SEP23 3 5,
      REG_FIELD AFE4410_TIA_GAIN_SEP23 6 6,
      \<comment> \<open>F_TIA_GAIN_SEP3_LSB = 4, F_TIA_CF_SEP3, F_TIA_GAIN_SEP3_MSB\<close>
      REG_FIELD AFE4410_TIA_GAIN_SEP23 8 10,
      REG_FIELD AFE4410_TIA_GAIN_SEP23 11 13,
      REG_FIELD AFE4410_TIA_GAIN_SEP23 14 14,
      \<comment> \<open>F_TIA_GAIN_SEP_LSB = 7, F_TIA_CF_SEP, F_TIA_GAIN_SEP_MSB\<close>
      REG_FIELD AFE4410_TIA_GAIN_SEP 0 2,
      REG_FIELD AFE4410_TIA_GAIN_SEP 3 5,
      REG_FIELD AFE4410_TIA_GAIN_SEP 6 6,
      \<comment> \<open>F_TIA_GAIN_LSB = 10, F_TIA_CF, F_TIA_GAIN_MSB\<close>
      REG_FIELD AFE4410_TIA_GAIN 0 2,
      REG_FIELD AFE4410_TIA_GAIN 3 5,
      REG_FIELD AFE4410_TIA_GAIN 6 6,
      \<comment> \<open>LED current: F_ILED1_MSB = 13, F_ILED2_MSB, F_ILED3_MSB, F_ILED4_MSB\<close>
      REG_FIELD AFE440X_LEDCNTRL 0 5,
      REG_FIELD AFE440X_LEDCNTRL 6 11,
      REG_FIELD AFE440X_LEDCNTRL 12 17,
      REG_FIELD AFE4410_LEDCNTRL2 11 16,
      \<comment> \<open>F_ILED1_LSB = 17, F_ILED2_LSB, F_ILED3_LSB, F_ILED4_LSB\<close>
      REG_FIELD AFE440X_LEDCNTRL 18 19,
      REG_FIELD AFE440X_LEDCNTRL 20 21,
      REG_FIELD AFE440X_LEDCNTRL 22 23,
      REG_FIELD AFE4410_LEDCNTRL2 9 10,
      \<comment> \<open>Offset DAC: F_I_OFFDAC_LED3_MID = 21, F_POL_OFFDAC_LED3, F_I_OFFDAC_LED1_MID,
          F_POL_OFFDAC_LED1, F_I_OFFDAC_AMB1_MID, F_POL_OFFDAC_AMB1, F_I_OFFDAC_LED2_MID,
          F_POL_OFFDAC_LED2\<close>
      REG_FIELD AFE4410_OFFDAC 0 3,
      REG_FIELD AFE4410_OFFDAC 4 4,
      REG_FIELD AFE4410_OFFDAC 5 8,
      REG_FIELD AFE4410_OFFDAC 9 9,
      REG_FIELD AFE4410_OFFDAC 10 13,
      REG_FIELD AFE4410_OFFDAC 14 14,
      REG_FIELD AFE4410_OFFDAC 15 18,
      REG_FIELD AFE4410_OFFDAC 19 19,
      \<comment> \<open>F_I_OFFDAC_LED3_LSB = 29, F_I_OFFDAC_LED3_MSB, F_I_OFFDAC_LED1_LSB,
          F_I_OFFDAC_LED1_MSB, F_I_OFFDAC_AMB1_LSB, F_I_OFFDAC_AMB1_MSB, F_I_OFFDAC_LED2_LSB,
          F_I_OFFDAC_LED2_MSB\<close>
      REG_FIELD AFE4410_OFFDAC_LMSB 0 0,
      REG_FIELD AFE4410_OFFDAC_LMSB 1 1,
      REG_FIELD AFE4410_OFFDAC_LMSB 2 2,
      REG_FIELD AFE4410_OFFDAC_LMSB 3 3,
      REG_FIELD AFE4410_OFFDAC_LMSB 4 4,
      REG_FIELD AFE4410_OFFDAC_LMSB 5 5,
      REG_FIELD AFE4410_OFFDAC_LMSB 6 6,
      REG_FIELD AFE4410_OFFDAC_LMSB 7 7,
      \<comment> \<open>F_I_OFFDAC_LED3_LSB_EXT = 37, F_I_OFFDAC_LED1_LSB_EXT, F_I_OFFDAC_AMB1_LSB_EXT,
          F_I_OFFDAC_LED2_LSB_EXT\<close>
      REG_FIELD AFE4410_OFFDAC_LMSB 8 8,
      REG_FIELD AFE4410_OFFDAC_LMSB 9 9,
      REG_FIELD AFE4410_OFFDAC_LMSB 10 10,
      REG_FIELD AFE4410_OFFDAC_LMSB 11 11,
      \<comment> \<open>FIFO and INT mux: F_FIFO_PARTITION = 41, F_INT_MUX1, F_REG_FIFO_PERIOD,
          F_FIFO_EARLY, F_INT_MUX2, F_INT_MUX3\<close>
      REG_FIELD AFE4410_FIFO 0 3,
      REG_FIELD AFE4410_FIFO 4 5,
      REG_FIELD AFE4410_FIFO 6 13,
      REG_FIELD AFE4410_FIFO 14 18,
      REG_FIELD AFE4410_FIFO 20 21,
      REG_FIELD AFE4410_FIFO 22 23 ]"

text \<open>
  \<open>afe4410_groups[][6]\<close>, indexed by \<open>enum afe4410_groups\<close>; each row lists its fields
  least significant first and is padded with zeros.
\<close>

definition afe4410_groups :: "nat list list" where
  "afe4410_groups =
    [ \<comment> \<open>G_TIA_GAIN_SEP2 = 0, G_TIA_CF_SEP2, G_TIA_GAIN_SEP3, G_TIA_CF_SEP3\<close>
      [1, 3, 0, 0, 0, 0],
      [2, 0, 0, 0, 0, 0],
      [4, 6, 0, 0, 0, 0],
      [5, 0, 0, 0, 0, 0],
      \<comment> \<open>G_TIA_GAIN_SEP = 4, G_TIA_CF_SEP, G_TIA_GAIN, G_TIA_CF\<close>
      [7, 9, 0, 0, 0, 0],
      [8, 0, 0, 0, 0, 0],
      [10, 12, 0, 0, 0, 0],
      [11, 0, 0, 0, 0, 0],
      \<comment> \<open>G_ILED1 = 8, G_ILED2, G_ILED3, G_ILED4\<close>
      [17, 13, 0, 0, 0, 0],
      [18, 14, 0, 0, 0, 0],
      [19, 15, 0, 0, 0, 0],
      [20, 16, 0, 0, 0, 0],
      \<comment> \<open>G_OFFDAC_LED2 = 12, G_OFFDAC_ALED2, G_OFFDAC_LED1, G_OFFDAC_ALED1\<close>
      [40, 35, 27, 36, 0, 0],
      [37, 29, 21, 30, 0, 0],
      [38, 31, 23, 32, 0, 0],
      [39, 33, 25, 34, 0, 0] ]"

subsection \<open>Well-formed groups and the value a group holds\<close>

text \<open>
  The notions the codec's properties are stated with. A field lies inside the 24-bit
  register value (\<open>val_bits = 24\<close> in the regmap configuration); two fields are disjoint
  when they are in different registers or their bit ranges do not meet; a group is in
  range when it is ended by \<open>0\<close> and names fields of the table only, and well formed
  when moreover its fields are pairwise disjoint. \<open>group_width\<close> is the total width.
\<close>

definition field_ok :: "reg_field \<Rightarrow> bool" where
  "field_ok rf \<longleftrightarrow> rf_lsb rf \<le> rf_msb rf \<and> rf_msb rf < 24"

definition fields_disjoint :: "reg_field \<Rightarrow> reg_field \<Rightarrow> bool" where
  "fields_disjoint a b \<longleftrightarrow>
     rf_reg a \<noteq> rf_reg b \<or> rf_msb a < rf_lsb b \<or> rf_msb b < rf_lsb a"

definition rf_width :: "reg_field \<Rightarrow> nat" where
  "rf_width rf = rf_msb rf + 1 - rf_lsb rf"

fun group_fields :: "nat list \<Rightarrow> nat list" where
  "group_fields [] = []"
| "group_fields (f # grp) = (if f = 0 then [] else f # group_fields grp)"

fun group_in_range :: "nat \<Rightarrow> nat list \<Rightarrow> bool" where
  "group_in_range n [] = False"
| "group_in_range n (f # grp) = (f = 0 \<or> (f < n \<and> group_in_range n grp))"

fun group_ok :: "reg_field list \<Rightarrow> nat list \<Rightarrow> bool" where
  "group_ok tbl [] = False"
| "group_ok tbl (f # grp) =
     (f = 0 \<or>
      (f < length tbl \<and> field_ok (tbl ! f) \<and>
       list_all (\<lambda>g. g < length tbl \<and> fields_disjoint (tbl ! f) (tbl ! g)) (group_fields grp) \<and>
       group_ok tbl grp))"

fun group_width :: "reg_field list \<Rightarrow> nat list \<Rightarrow> nat" where
  "group_width tbl [] = 0"
| "group_width tbl (f # grp) = (if f = 0 then 0 else rf_width (tbl ! f) + group_width tbl grp)"

text \<open>
  \<open>group_shifts_ok flds grp s\<close>: starting from the bit position \<open>s\<close>, every field of the
  group is placed at a bit position below 32, so that no shift of the group read is
  undefined.
\<close>

fun group_shifts_ok :: "regmap_field list \<Rightarrow> nat list \<Rightarrow> nat \<Rightarrow> bool" where
  "group_shifts_ok flds [] s = True"
| "group_shifts_ok flds (f # grp) s =
     (f = 0 \<or> (s < 32 \<and> group_shifts_ok flds grp (s + hweight_long (f_mask (flds ! f)))))"

text \<open>
  \<open>field_get\<close> is the raw value a field holds in the registers; \<open>group_value\<close> is the
  logical value of a group: its first field at bit \<open>0\<close>, every later field above the
  fields before it.
\<close>

definition field_get :: "regmap_field \<Rightarrow> (nat \<Rightarrow> u32) \<Rightarrow> u32" where
  "field_get f r = drop_bit (f_shift f) (r (f_reg f) AND f_mask f)"

fun group_value :: "regmap_field list \<Rightarrow> nat list \<Rightarrow> (nat \<Rightarrow> u32) \<Rightarrow> u32" where
  "group_value flds [] r = 0"
| "group_value flds (f # grp) r =
     (if f = 0 then 0
      else field_get (flds ! f) r OR
           push_bit (hweight_long (f_mask (flds ! f))) (group_value flds grp r))"

section \<open>The byte-stream FIFO decoder of the AFE4410 I2C driver\<close>

text \<open>
  The driver reads the FIFO into \<open>s32 *buffer\<close> and then repacks the same memory through
  \<open>u8 *buf_alias\<close>. Its properties depend on the aliasing, so the buffer is a store of bytes
  addressed by their offset from its start; slot \<open>i\<close> of the \<open>s32\<close> view is the four
  bytes from offset \<open>4 * i\<close>, in the byte order of the CPU.
\<close>

type_synonym memory = "nat \<Rightarrow> u8"

datatype endian = Little_endian | Big_endian

definition store_s32 :: "endian \<Rightarrow> memory \<Rightarrow> nat \<Rightarrow> s32 \<Rightarrow> memory" where
  "store_s32 e mem i v =
     (case e of
        Little_endian \<Rightarrow>
          mem(4 * i := ucast v, 4 * i + 1 := ucast (drop_bit 8 v),
              4 * i + 2 := ucast (drop_bit 16 v), 4 * i + 3 := ucast (drop_bit 24 v))
      | Big_endian \<Rightarrow>
          mem(4 * i := ucast (drop_bit 24 v), 4 * i + 1 := ucast (drop_bit 16 v),
              4 * i + 2 := ucast (drop_bit 8 v), 4 * i + 3 := ucast v))"

definition load_s32 :: "endian \<Rightarrow> memory \<Rightarrow> nat \<Rightarrow> s32" where
  "load_s32 e mem i =
     (case e of
        Little_endian \<Rightarrow>
          ucast (mem (4 * i)) OR push_bit 8 (ucast (mem (4 * i + 1))) OR
          push_bit 16 (ucast (mem (4 * i + 2))) OR push_bit 24 (ucast (mem (4 * i + 3)))
      | Big_endian \<Rightarrow>
          push_bit 24 (ucast (mem (4 * i))) OR push_bit 16 (ucast (mem (4 * i + 1))) OR
          push_bit 8 (ucast (mem (4 * i + 2))) OR ucast (mem (4 * i + 3)))"

text \<open>
  The value the loop stores:
  \<open>buf_alias[alias_index + 0] << 16 | buf_alias[alias_index + 1] << 8 |
    buf_alias[alias_index + 2] << 0\<close>, each byte promoted to \<open>int\<close> first.
\<close>

definition be24 :: "u8 \<Rightarrow> u8 \<Rightarrow> u8 \<Rightarrow> s32" where
  "be24 b0 b1 b2 = push_bit 16 (ucast b0) OR push_bit 8 (ucast b1) OR push_bit 0 (ucast b2)"

text \<open>
  The loop \<open>for (i = (len >> 2) - 1; i >= 0; i--)\<close> of \<open>afe4410_i2c_fifo_read\<close>, from the
  value of \<open>i\<close> on.
\<close>

function fix_byte_order :: "endian \<Rightarrow> int \<Rightarrow> memory \<Rightarrow> memory" where
  "fix_byte_order e i buffer =
     (if 0 \<le> i then
        let alias_index = nat (i * 3) in
        fix_byte_order e (i - 1)
          (store_s32 e buffer (nat i)
             (be24 (buffer (alias_index + 0)) (buffer (alias_index + 1))
                (buffer (alias_index + 2))))
      else buffer)"
  by pat_completeness auto
termination
  by (relation "measure (\<lambda>(e, i, buffer). nat (i + 1))") auto

declare fix_byte_order.simps [simp del]

text \<open>
  Modelled from the spec: \<open>i2c_transfer\<close> and the adapter behind it are absent. The spec's
  \<open>readBurst(startAddress, byteLength)\<close> returns bytes or an error; the adapter is a
  function from the one-byte address and the length of the read message to the return
  code and the bytes received, which land at the start of the buffer.
\<close>

type_synonym i2c_adapter = "u8 \<Rightarrow> nat \<Rightarrow> int \<times> u8 list"

definition i2c_received :: "memory \<Rightarrow> u8 list \<Rightarrow> memory" where
  "i2c_received mem data = (\<lambda>a. if a < length data then data ! a else mem a)"

text \<open>
  \<open>afe4410_i2c_fifo_read\<close>. \<open>len\<close> is the size of the buffer in bytes: the read message
  asks for \<open>(len * 3) >> 2\<close> bytes, held in the 16-bit \<open>m[1].len\<close>, and the loop runs over
  the \<open>len >> 2\<close> slots.
\<close>

definition afe4410_i2c_fifo_read ::
  "endian \<Rightarrow> i2c_adapter \<Rightarrow> memory \<Rightarrow> int \<Rightarrow> int \<times> memory" where
  "afe4410_i2c_fifo_read e adap buffer len =
     (case adap 0xff (nat (((len * 3) div 4) mod 65536)) of
        (ret, data) \<Rightarrow>
          if ret < 0 then (ret, i2c_received buffer data)
          else (0, fix_byte_order e (len div 4 - 1) (i2c_received buffer data)))"

text \<open>
  The same pass in ascending slot order, as the spec describes the order that must not be
  used; the driver has no such loop. It is here to be compared with \<open>fix_byte_order\<close>.
\<close>

function ascending_byte_order :: "endian \<Rightarrow> int \<Rightarrow> int \<Rightarrow> memory \<Rightarrow> memory" where
  "ascending_byte_order e i n buffer =
     (if i < n \<and> 0 \<le> i then
        let alias_index = nat (i * 3) in
        ascending_byte_order e (i + 1) n
          (store_s32 e buffer (nat i)
             (be24 (buffer (alias_index + 0)) (buffer (alias_index + 1))
                (buffer (alias_index + 2))))
      else buffer)"
  by pat_completeness auto
termination
  by (relation "measure (\<lambda>(e, i, n, buffer). nat (n - i))") auto

declare ascending_byte_order.simps [simp del]

section \<open>The AFE4420 core\<close>

subsection \<open>Registers, fields and constants\<close>

text \<open>
  Modelled from the spec: \<open>BIT(n)\<close> (linux/bits.h) is absent; it is the word with bit \<open>n\<close>
  alone set.
\<close>

definition BIT :: "nat \<Rightarrow> u32" where
  "BIT n = push_bit n 1"

definition AFE4420_CONTROL1 :: nat where "AFE4420_CONTROL1 = 0x23"
definition AFE4420_FIFO :: nat where "AFE4420_FIFO = 0x42"
definition AFE4420_POINTER_DIFF :: nat where "AFE4420_POINTER_DIFF = 0x6d"
definition AFE4420_PHASE :: nat where "AFE4420_PHASE = 0x88"
definition AFE4420_AACM :: nat where "AFE4420_AACM = 0x93"
definition AFE4420_PDCNTRL0 :: "nat \<Rightarrow> nat" where "AFE4420_PDCNTRL0 x = 0x98 + x * 4"
definition AFE4420_PDCNTRL1 :: "nat \<Rightarrow> nat" where "AFE4420_PDCNTRL1 x = 0x99 + x * 4"
definition AFE4420_PDCNTRL2 :: "nat \<Rightarrow> nat" where "AFE4420_PDCNTRL2 x = 0x9a + x * 4"
definition AFE4420_LEDCNTRL1 :: nat where "AFE4420_LEDCNTRL1 = 0xac"
definition AFE4420_LEDCNTRL2 :: nat where "AFE4420_LEDCNTRL2 = 0xae"
definition AFE4420_PHASECNTRL0 :: "nat \<Rightarrow> nat" where "AFE4420_PHASECNTRL0 x = 0xb8 + x * 3"
definition AFE4420_PHASECNTRL1 :: "nat \<Rightarrow> nat" where "AFE4420_PHASECNTRL1 x = 0xb9 + x * 3"
definition AFE4420_PHASECNTRL2 :: "nat \<Rightarrow> nat" where "AFE4420_PHASECNTRL2 x = 0xba + x * 3"

definition AFE4420_PHASECNTRL0_PD_ON1 :: u32 where "AFE4420_PHASECNTRL0_PD_ON1 = BIT 16"
definition AFE4420_PHASECNTRL2_TWLED :: u32 where "AFE4420_PHASECNTRL2_TWLED = GENMASK 7 0"

definition AFE4420_FIFO_MAX_SAMPLES :: nat where "AFE4420_FIFO_MAX_SAMPLES = 128"
definition AFE4420_FIFO_LEN :: u32 where "AFE4420_FIFO_LEN = 10"
definition AFE4420_DEFAULT_TWLED :: u32 where "AFE4420_DEFAULT_TWLED = 0x6"

text \<open>
  \<open>enum afe4420_fields\<close> starts at \<open>F_IFS_OFFDAC = 0\<close>; the two fields the coordinator
  writes are the third and the fourth.
\<close>

definition F_WM_FIFO :: nat where "F_WM_FIFO = 2"
definition F_NUMPHASE :: nat where "F_NUMPHASE = 3"

definition PD_REG_FIELDS :: "nat \<Rightarrow> reg_field list" where
  "PD_REG_FIELDS pd =
    [ REG_FIELD (AFE4420_PDCNTRL0 pd) 0 0,
      REG_FIELD (AFE4420_PDCNTRL0 pd) 4 7,
      REG_FIELD (AFE4420_PDCNTRL0 pd) 10 10,
      REG_FIELD (AFE4420_PDCNTRL0 pd) 16 22,
      REG_FIELD (AFE4420_PDCNTRL0 pd) 23 23,
      REG_FIELD (AFE4420_PDCNTRL1 pd) 0 11,
      REG_FIELD (AFE4420_PDCNTRL2 pd) 1 7,
      REG_FIELD (AFE4420_PDCNTRL2 pd) 8 8 ]"

definition PHASE_REG_FIELDS :: "nat \<Rightarrow> reg_field list" where
  "PHASE_REG_FIELDS phase =
    [ REG_FIELD (AFE4420_PHASECNTRL1 phase) 0 3,
      REG_FIELD (AFE4420_PHASECNTRL1 phase) 4 7,
      REG_FIELD (AFE4420_PHASECNTRL1 phase) 10 12,
      REG_FIELD (AFE4420_PHASECNTRL1 phase) 16 22,
      REG_FIELD (AFE4420_PHASECNTRL1 phase) 23 23 ]"

definition afe4420_reg_fields :: "reg_field list" where
  "afe4420_reg_fields =
    [ REG_FIELD AFE4420_CONTROL1 10 12,
      REG_FIELD AFE4420_CONTROL1 23 23,
      \<comment> \<open>Watermark level\<close>
      REG_FIELD AFE4420_FIFO 6 13,
      \<comment> \<open>Number of active phases\<close>
      REG_FIELD AFE4420_PHASE 0 3,
      \<comment> \<open>Offset for AACM calibration\<close>
      REG_FIELD AFE4420_AACM 8 20 ] @
    \<comment> \<open>PD1 to PD4\<close>
    PD_REG_FIELDS 0 @ PD_REG_FIELDS 1 @ PD_REG_FIELDS 2 @ PD_REG_FIELDS 3 @
    \<comment> \<open>LED current\<close>
    [ REG_FIELD AFE4420_LEDCNTRL1 0 7,
      REG_FIELD AFE4420_LEDCNTRL1 12 19,
      REG_FIELD AFE4420_LEDCNTRL2 0 7,
      REG_FIELD AFE4420_LEDCNTRL2 12 19 ] @
    \<comment> \<open>PHASE1 to PHASE16\<close>
    concat (map PHASE_REG_FIELDS [0..<16])"

subsection \<open>Device instance data\<close>

text \<open>
  \<open>struct afe4420_data\<close>, without the handles that play no part here (device, regulator,
  reset GPIO, interrupt number). \<open>buffer\<close> (\<open>afe_buffer\<close> here) is declared \<open>s8 buffer[AFE4420_FIFO_MAX_SAMPLES * 4]\<close>
  and used as \<open>s32 *\<close> throughout; it is kept as its 128 words. \<open>fifo_read\<close> is the
  callback of the bus driver: from the buffer and the length in bytes to the return code
  and the buffer as the transfer leaves it.
\<close>

record afe4420_data =
  afe_regmap :: regmap
  afe_fields :: "regmap_field list"
  used_phases :: u32
  fifo_read :: "s32 list \<Rightarrow> int \<Rightarrow> int \<times> s32 list"
  afe_buffer :: "s32 list"

text \<open>
  \<open>afe4420_instance rm cb\<close> is a value of \<open>struct afe4420_data\<close> for the functions below to
  run on: the register map \<open>rm\<close>, the callback \<open>cb\<close>, one \<open>regmap_field\<close> for every
  entry of \<open>afe4420_reg_fields\<close>, the buffer zeroed and \<open>used_phases\<close> zero, as the zeroing
  allocation leaves them. It is the start state of the examples and stands for no
  function of the driver.
\<close>

definition afe4420_instance ::
  "regmap \<Rightarrow> (s32 list \<Rightarrow> int \<Rightarrow> int \<times> s32 list) \<Rightarrow> afe4420_data" where
  "afe4420_instance rm cb =
     \<lparr>afe_regmap = rm,
      afe_fields = map devm_regmap_field_alloc afe4420_reg_fields,
      used_phases = 0,
      fifo_read = cb,
      afe_buffer = replicate AFE4420_FIFO_MAX_SAMPLES 0\<rparr>"

subsection \<open>Configuration transition\<close>

text \<open>
  Modelled from the spec: \<open>find_first_zero_bit\<close> (linux/bitops.h) is absent; it returns
  the index of the first clear bit below \<open>size\<close>, and \<open>size\<close> when there is none. The scan
  mask has at most 16 bits in use and is kept in one 32-bit word.
\<close>

definition find_first_zero_bit :: "u32 \<Rightarrow> nat \<Rightarrow> nat" where
  "find_first_zero_bit addr sz =
     (case List.find (\<lambda>n. \<not> bit addr n) [0..<sz] of Some n \<Rightarrow> n | None \<Rightarrow> sz)"

text \<open>
  The two loops \<open>for (i = PHASE1; i < phases; i++)\<close> of \<open>afe4420_update_scan_mode\<close> differ
  in the register, the mask and the value of their \<open>regmap_update_bits\<close> only; they are
  one function of these. The \<open>dev_err\<close> lines are not modelled.
\<close>

function phase_update_loop ::
  "(nat \<Rightarrow> nat) \<Rightarrow> u32 \<Rightarrow> u32 \<Rightarrow> nat \<Rightarrow> nat \<Rightarrow> regmap \<Rightarrow> int \<times> regmap" where
  "phase_update_loop reg_of m v i phases rm =
     (if i < phases then
        case regmap_update_bits (reg_of i) m v rm of
          (ret, rm') \<Rightarrow>
            if ret \<noteq> 0 then (ret, rm') else phase_update_loop reg_of m v (i + 1) phases rm'
      else (0, rm))"
  by pat_completeness auto
termination
  by (relation "measure (\<lambda>(reg_of, m, v, i, phases, rm). phases - i)") auto

declare phase_update_loop.simps [simp del]

definition afe4420_update_scan_mode :: "afe4420_data \<Rightarrow> u32 \<Rightarrow> nat \<Rightarrow> int \<times> afe4420_data" where
  "afe4420_update_scan_mode afe scan_mask masklength =
     (let phases = find_first_zero_bit scan_mask masklength in
      \<comment> \<open>Enable PD for each enabled phase\<close>
      case phase_update_loop AFE4420_PHASECNTRL0 AFE4420_PHASECNTRL0_PD_ON1
             AFE4420_PHASECNTRL0_PD_ON1 0 phases (afe_regmap afe) of
        (ret, rm1) \<Rightarrow>
      if ret \<noteq> 0 then (ret, afe\<lparr>afe_regmap := rm1\<rparr>) else
      \<comment> \<open>Set sample time for each enabled phase\<close>
      case phase_update_loop AFE4420_PHASECNTRL2 AFE4420_PHASECNTRL2_TWLED
             AFE4420_DEFAULT_TWLED 0 phases rm1 of
        (ret, rm2) \<Rightarrow>
      if ret \<noteq> 0 then (ret, afe\<lparr>afe_regmap := rm2\<rparr>) else
      \<comment> \<open>Set watermark for FIFO_RDY signal\<close>
      case regmap_field_write (afe_fields afe ! F_WM_FIFO)
             (of_nat phases * AFE4420_FIFO_LEN - 1) rm2 of
        (ret, rm3) \<Rightarrow>
      if ret \<noteq> 0 then (ret, afe\<lparr>afe_regmap := rm3\<rparr>) else
      \<comment> \<open>Set number of active signal phases\<close>
      case regmap_field_write (afe_fields afe ! F_NUMPHASE) (of_nat phases - 1) rm3 of
        (ret, rm4) \<Rightarrow>
      if ret \<noteq> 0 then (ret, afe\<lparr>afe_regmap := rm4\<rparr>)
      else (0, afe\<lparr>afe_regmap := rm4, used_phases := of_nat phases\<rparr>))"

subsection \<open>Sampling interrupt\<close>

text \<open>
  Modelled from the spec: \<open>sign_extend32\<close> (linux/bitops.h) is absent. The spec has the
  handler sign-extend the pointer difference from its narrow width; the helper takes the
  value and the 0-based index of the bit that holds the sign, shifts that bit to the top
  and shifts back arithmetically: \<open>shift = 31 - index; (s32)(value << shift) >> shift\<close>.
\<close>

definition sign_extend32 :: "u32 \<Rightarrow> nat \<Rightarrow> s32" where
  "sign_extend32 val index =
     (let shift = 31 - index in signed_drop_bit shift (push_bit shift val))"

text \<open>
  \<open>pointer_diff\<close> as the handler has it when it validates: the register sign-extended
  with bit 8 as the sign, plus one.
\<close>

definition afe4420_pointer_diff :: "u32 \<Rightarrow> s32" where
  "afe4420_pointer_diff reg_val = sign_extend32 reg_val 8 + 1"

text \<open>
  Modelled from the spec: \<open>irqreturn_t\<close> (linux/irqreturn.h) is absent; a handler tells
  the interrupt core whether the interrupt was its own and has been served.
\<close>

datatype irqreturn = IRQ_NONE | IRQ_HANDLED

text \<open>
  What one run of the handler does that its callers can see: the value it returns, the
  lines it logs with \<open>dev_err\<close> and \<open>dev_info\<close>, the length it passes to \<open>fifo_read\<close> when
  it calls it, and the frames it pushes, in order.
\<close>

record irq_outcome =
  irq_ret :: irqreturn
  irq_log :: "string list"
  irq_fifo_len :: "int option"
  irq_pushed :: "s32 list option list"

text \<open>
  Modelled from the spec: \<open>iio_push_to_buffers\<close> is absent; it emits one frame, which is
  the words of the enabled channels, \<open>scan_words\<close> of them, from the pointer on. A frame
  that does not lie inside the buffer is \<open>None\<close>.
\<close>

definition iio_push_to_buffers :: "s32 list \<Rightarrow> nat \<Rightarrow> nat \<Rightarrow> s32 list option" where
  "iio_push_to_buffers buf scan_words byte_offset =
     (if byte_offset div 4 + scan_words \<le> length buf
      then Some (take scan_words (drop (byte_offset div 4) buf)) else None)"

text \<open>
  The loop \<open>for (i = 0; i < cycles; i++)\<close> of the handler, from the value of \<open>i\<close> on;
  \<open>i\<close> and \<open>cycles\<close> are \<open>int\<close>, the offset \<open>i * (afe->used_phases * sizeof(s32))\<close> is
  computed in \<open>size_t\<close>, where it does not wrap.
\<close>

function push_loop :: "s32 list \<Rightarrow> u32 \<Rightarrow> int \<Rightarrow> int \<Rightarrow> s32 list option list" where
  "push_loop buf phases i cycles =
     (if i < cycles then
        iio_push_to_buffers buf (unat phases) (nat i * (unat phases * 4)) #
        push_loop buf phases (i + 1) cycles
      else [])"
  by pat_completeness auto
termination
  by (relation "measure (\<lambda>(buf, phases, i, cycles). nat (cycles - i))") auto

declare push_loop.simps [simp del]

text \<open>
  \<open>afe4420_trigger_handler\<close>. \<open>pointer_diff\<close> and \<open>cycles\<close> are \<open>int\<close> and
  \<open>afe->used_phases\<close> is \<open>unsigned int\<close>, so C computes \<open>pointer_diff % afe->used_phases\<close>,
  \<open>pointer_diff / afe->used_phases\<close> and \<open>afe->used_phases * cycles\<close> on \<open>unsigned int\<close>, as
  \<open>mod\<close>, \<open>div\<close> and \<open>*\<close> on words do; the comparisons with \<open>AFE4420_FIFO_LEN\<close> and the
  length passed to \<open>fifo_read\<close> are signed. A division by zero is \<open>Divide_error\<close>.
\<close>

definition afe4420_trigger_handler :: "afe4420_data \<Rightarrow> error + irq_outcome \<times> afe4420_data" where
  "afe4420_trigger_handler afe =
     (case regmap_read AFE4420_POINTER_DIFF (afe_regmap afe) of
        (Inl ret, rm) \<Rightarrow>
          Inr (\<lparr>irq_ret = IRQ_HANDLED, irq_log = [], irq_fifo_len = None, irq_pushed = []\<rparr>,
               afe\<lparr>afe_regmap := rm\<rparr>)
      | (Inr reg_val, rm) \<Rightarrow>
          let pointer_diff = afe4420_pointer_diff reg_val in
          if used_phases afe = 0 then Inl Divide_error
          else if pointer_diff mod used_phases afe \<noteq> 0 then
            Inr (\<lparr>irq_ret = IRQ_HANDLED,
                  irq_log = [''Samples in FIFO not an even multiple of used phases''],
                  irq_fifo_len = None, irq_pushed = []\<rparr>,
                 afe\<lparr>afe_regmap := rm\<rparr>)
          else
            let cycles = pointer_diff div used_phases afe;
                msgs = (if sint cycles < sint AFE4420_FIFO_LEN then [''Early FIFO interrupt'']
                        else if sint AFE4420_FIFO_LEN < sint cycles then [''Late FIFO interrupt..'']
                        else []);
                len = sint (used_phases afe * cycles * 4)
            in case fifo_read afe (afe_buffer afe) len of
                 (ret, buf) \<Rightarrow>
                   Inr (\<lparr>irq_ret = IRQ_HANDLED, irq_log = msgs, irq_fifo_len = Some len,
                         irq_pushed = (if ret < 0 then []
                                       else push_loop buf (used_phases afe) 0 (sint cycles))\<rparr>,
                        afe\<lparr>afe_regmap := rm, afe_buffer := buf\<rparr>))"

section \<open>Properties of the register fields\<close>

lemma bit_GENMASK:
  "l \<le> h \<Longrightarrow> h < 32 \<Longrightarrow> bit (GENMASK h l) n \<longleftrightarrow> l \<le> n \<and> n \<le> h"
  unfolding GENMASK_def
  by (auto simp add: bit_simps minus_exp_eq_not_mask push_bit_eq_mult)

lemma hweight_GENMASK:
  assumes "l \<le> h" "h < 32"
  shows "hweight_long (GENMASK h l) = h + 1 - l"
proof -
  have "filter (bit (GENMASK h l)) [0..<32] = filter (\<lambda>n. l \<le> n \<and> n \<le> h) [0..<32]"
    using assms by (intro filter_cong refl) (simp add: bit_GENMASK)
  also have "length \<dots> = card {i. i < 32 \<and> l \<le> i \<and> i \<le> h}"
    unfolding length_filter_conv_card by (rule arg_cong [where f = card]) auto
  also have "{i. i < 32 \<and> l \<le> i \<and> i \<le> h} = {l..h}"
    using assms by auto
  finally show ?thesis by (simp add: hweight_long_def)
qed

lemma bus_request_fault_free:
  "fault_free rm \<Longrightarrow> \<exists>rm'. bus_request rm = (0, rm') \<and> fault_free rm' \<and> regs rm' = regs rm"
  by (cases "faults rm") (auto simp: bus_request_def fault_free_def)

lemma regmap_field_read_fault_free:
  assumes "fault_free rm"
  shows "\<exists>rm'. regmap_field_read f rm = (Inr (field_get f (regs rm)), rm') \<and>
               fault_free rm' \<and> regs rm' = regs rm"
  using bus_request_fault_free [OF assms]
  by (auto simp: regmap_field_read_def regmap_read_def field_get_def)

lemma regmap_field_write_fault_free:
  assumes "fault_free rm"
  shows "\<exists>rm'. regmap_field_write f v rm = (0, rm') \<and> fault_free rm' \<and>
               regs rm' = (regs rm)(f_reg f :=
                 (regs rm (f_reg f) AND NOT (f_mask f)) OR (push_bit (f_shift f) v AND f_mask f))"
  using bus_request_fault_free [OF assms]
  by (auto simp: regmap_field_write_def regmap_update_bits_def fault_free_def)

lemma field_get_other:
  assumes "f_reg f \<noteq> r \<or> f_mask f AND m = 0"
  shows "field_get f (rg(r := (rg r AND NOT m) OR (x AND m))) = field_get f rg"
proof (cases "f_reg f = r")
  case False
  then show ?thesis by (simp add: field_get_def)
next
  case True
  with assms have d: "f_mask f AND m = 0" by simp
  have nb: "\<not> (bit (f_mask f) n \<and> bit m n)" for n
    using d by (metis bit_and_iff bit_0_eq bot_apply bot_bool_def)
  have "((rg r AND NOT m) OR (x AND m)) AND f_mask f = rg r AND f_mask f"
    by (rule bit_eqI) (use nb in \<open>auto simp add: bit_simps\<close>)
  with True show ?thesis by (simp add: field_get_def)
qed

lemma field_get_same:
  assumes "field_ok rf"
  shows "field_get (devm_regmap_field_alloc rf)
           (rg(rf_reg rf := (rg (rf_reg rf) AND NOT (GENMASK (rf_msb rf) (rf_lsb rf))) OR
                 (push_bit (rf_lsb rf) v AND GENMASK (rf_msb rf) (rf_lsb rf))))
         = take_bit (rf_width rf) v"
proof -
  from assms have a: "rf_lsb rf \<le> rf_msb rf" "rf_msb rf < 32"
    by (simp_all add: field_ok_def)
  show ?thesis
    unfolding field_get_def devm_regmap_field_alloc_def rf_width_def
    by (rule bit_eqI) (use a in \<open>auto simp add: bit_simps bit_GENMASK\<close>)
qed

lemma masks_disjoint:
  assumes "field_ok a" "field_ok b" "fields_disjoint a b"
  shows "rf_reg a \<noteq> rf_reg b \<or>
         GENMASK (rf_msb a) (rf_lsb a) AND GENMASK (rf_msb b) (rf_lsb b) = 0"
proof (cases "rf_reg a = rf_reg b")
  case False
  then show ?thesis by simp
next
  case True
  with assms(3) have d: "rf_msb a < rf_lsb b \<or> rf_msb b < rf_lsb a"
    by (simp add: fields_disjoint_def)
  from assms have ok: "rf_lsb a \<le> rf_msb a" "rf_msb a < 32" "rf_lsb b \<le> rf_msb b" "rf_msb b < 32"
    by (simp_all add: field_ok_def)
  have "GENMASK (rf_msb a) (rf_lsb a) AND GENMASK (rf_msb b) (rf_lsb b) = 0"
    by (rule bit_eqI) (use d ok in \<open>auto simp add: bit_simps bit_GENMASK\<close>)
  then show ?thesis by simp
qed

section \<open>Properties of the field-group codec\<close>

lemma fields_disjoint_sym: "fields_disjoint a b \<Longrightarrow> fields_disjoint b a"
  by (auto simp: fields_disjoint_def)

lemma alloc_nth:
  "f < length tbl \<Longrightarrow> map devm_regmap_field_alloc tbl ! f = devm_regmap_field_alloc (tbl ! f)"
  by simp

lemma hweight_alloc:
  "field_ok rf \<Longrightarrow> hweight_long (f_mask (devm_regmap_field_alloc rf)) = rf_width rf"
  by (simp add: devm_regmap_field_alloc_def field_ok_def hweight_GENMASK rf_width_def)

lemma take_bit_split:
  "take_bit w v OR push_bit w (take_bit k (drop_bit w v)) = take_bit (w + k) (v :: u32)"
  by (rule bit_eqI) (auto simp add: bit_simps)

lemma push_bit_or_push:
  "acc OR push_bit s (a OR push_bit w b) = (acc OR push_bit s a) OR push_bit (s + w) (b :: u32)"
  by (rule bit_eqI) (auto simp add: bit_simps)

lemma group_write_ok:
  assumes "group_ok tbl grp" "fault_free rm"
  shows "\<exists>rm'. regmap_group_write (map devm_regmap_field_alloc tbl) grp v rm = (Inr (), rm') \<and>
               fault_free rm' \<and>
               group_value (map devm_regmap_field_alloc tbl) grp (regs rm') =
                 take_bit (group_width tbl grp) v \<and>
               (\<forall>g. field_ok g \<longrightarrow>
                    list_all (\<lambda>f. f < length tbl \<and> fields_disjoint g (tbl ! f)) (group_fields grp) \<longrightarrow>
                    field_get (devm_regmap_field_alloc g) (regs rm') =
                    field_get (devm_regmap_field_alloc g) (regs rm))"
  using assms
proof (induction grp arbitrary: v rm)
  case Nil
  then show ?case by simp
next
  case (Cons f grp)
  let ?flds = "map devm_regmap_field_alloc tbl"
  show ?case
  proof (cases "f = 0")
    case True
    with Cons.prems show ?thesis by simp
  next
    case False
    with Cons.prems have ok: "f < length tbl" "field_ok (tbl ! f)" "group_ok tbl grp"
      and dj: "list_all (\<lambda>g. g < length tbl \<and> fields_disjoint (tbl ! f) (tbl ! g)) (group_fields grp)"
      by simp_all
    let ?rf = "tbl ! f"
    let ?w = "rf_width ?rf"
    have fl: "?flds ! f = devm_regmap_field_alloc ?rf" using ok(1) by simp
    have hw: "hweight_long (f_mask (?flds ! f)) = ?w"
      using ok(2) fl by (simp add: hweight_alloc)
    have w32: "?w < 32"
      using ok(2) unfolding field_ok_def rf_width_def by arith
    obtain rm1 where w1: "regmap_field_write (?flds ! f) v rm = (0, rm1)"
      and ff1: "fault_free rm1"
      and rg1: "regs rm1 = (regs rm)(rf_reg ?rf :=
                 (regs rm (rf_reg ?rf) AND NOT (GENMASK (rf_msb ?rf) (rf_lsb ?rf))) OR
                 (push_bit (rf_lsb ?rf) v AND GENMASK (rf_msb ?rf) (rf_lsb ?rf)))"
      using regmap_field_write_fault_free [OF Cons.prems(2), of "?flds ! f" v]
      unfolding fl by (auto simp: devm_regmap_field_alloc_def)
    from Cons.IH [OF ok(3) ff1, of "drop_bit ?w v"] obtain rm' where
      w: "regmap_group_write ?flds grp (drop_bit ?w v) rm1 = (Inr (), rm')"
      and ff: "fault_free rm'"
      and gv: "group_value ?flds grp (regs rm') = take_bit (group_width tbl grp) (drop_bit ?w v)"
      and pres: "\<And>g. field_ok g \<Longrightarrow>
                  list_all (\<lambda>f. f < length tbl \<and> fields_disjoint g (tbl ! f)) (group_fields grp) \<Longrightarrow>
                  field_get (devm_regmap_field_alloc g) (regs rm') =
                  field_get (devm_regmap_field_alloc g) (regs rm1)"
      by blast
    have res: "regmap_group_write ?flds (f # grp) v rm = (Inr (), rm')"
      using False ok(1) w1 w hw w32 by (simp del: map_eq_conv)
    have "field_get (?flds ! f) (regs rm') = field_get (?flds ! f) (regs rm1)"
      unfolding fl using pres [OF ok(2) dj] .
    also have "\<dots> = take_bit ?w v"
      unfolding fl rg1 by (rule field_get_same [OF ok(2)])
    finally have own: "field_get (?flds ! f) (regs rm') = take_bit ?w v" .
    have val: "group_value ?flds (f # grp) (regs rm') = take_bit (group_width tbl (f # grp)) v"
      using False own gv hw by (simp add: take_bit_split)
    have frame: "field_get (devm_regmap_field_alloc g) (regs rm') =
                 field_get (devm_regmap_field_alloc g) (regs rm)"
      if g: "field_ok g"
        and gd: "list_all (\<lambda>f. f < length tbl \<and> fields_disjoint g (tbl ! f)) (group_fields (f # grp))"
      for g
    proof -
      from gd False have g1: "fields_disjoint g ?rf"
        and g2: "list_all (\<lambda>f. f < length tbl \<and> fields_disjoint g (tbl ! f)) (group_fields grp)"
        by simp_all
      have "field_get (devm_regmap_field_alloc g) (regs rm1) =
            field_get (devm_regmap_field_alloc g) (regs rm)"
        unfolding rg1
        by (rule field_get_other)
           (use masks_disjoint [OF g ok(2) g1] in \<open>simp add: devm_regmap_field_alloc_def\<close>)
      with pres [OF g g2] show ?thesis by simp
    qed
    from res ff val frame show ?thesis by blast
  qed
qed

lemma group_ok_in_range: "group_ok tbl grp \<Longrightarrow> group_in_range (length tbl) grp"
  by (induction grp) auto

lemma group_ok_shifts:
  assumes "group_ok tbl grp" "s + group_width tbl grp \<le> 32"
  shows "group_shifts_ok (map devm_regmap_field_alloc tbl) grp s"
  using assms
proof (induction grp arbitrary: s)
  case Nil
  then show ?case by simp
next
  case (Cons f grp)
  show ?case
  proof (cases "f = 0")
    case True
    then show ?thesis by simp
  next
    case False
    with Cons.prems have ok: "f < length tbl" "field_ok (tbl ! f)" "group_ok tbl grp"
      and le: "s + rf_width (tbl ! f) + group_width tbl grp \<le> 32"
      by simp_all
    from ok(2) have pos: "0 < rf_width (tbl ! f)"
      by (simp add: field_ok_def rf_width_def)
    have hw: "hweight_long (f_mask (map devm_regmap_field_alloc tbl ! f)) = rf_width (tbl ! f)"
      using ok(1,2) by (simp add: hweight_alloc)
    from Cons.IH [OF ok(3) le] have
      "group_shifts_ok (map devm_regmap_field_alloc tbl) grp (s + rf_width (tbl ! f))" .
    with False pos le hw show ?thesis by (simp del: map_eq_conv)
  qed
qed

lemma group_read_loop_value:
  assumes "group_in_range (length flds) grp" "group_shifts_ok flds grp s" "fault_free rm"
  shows "\<exists>rm'. group_read_loop flds grp acc s rm =
                 (Inr (acc OR push_bit s (group_value flds grp (regs rm))), rm') \<and>
               fault_free rm' \<and> regs rm' = regs rm"
  using assms
proof (induction grp arbitrary: acc s rm)
  case Nil
  then show ?case by simp
next
  case (Cons f grp)
  show ?case
  proof (cases "f = 0")
    case True
    with Cons.prems show ?thesis by simp
  next
    case False
    with Cons.prems have ok: "f < length flds" "group_in_range (length flds) grp"
      and sh: "s < 32" "group_shifts_ok flds grp (s + hweight_long (f_mask (flds ! f)))"
      by simp_all
    obtain rm1 where r1: "regmap_field_read (flds ! f) rm = (Inr (field_get (flds ! f) (regs rm)), rm1)"
      and ff1: "fault_free rm1" and rg1: "regs rm1 = regs rm"
      using regmap_field_read_fault_free [OF Cons.prems(3)] by blast
    from Cons.IH [OF ok(2) sh(2) ff1] obtain rm' where
      l: "group_read_loop flds grp (acc OR push_bit s (field_get (flds ! f) (regs rm)))
            (s + hweight_long (f_mask (flds ! f))) rm1 =
          (Inr ((acc OR push_bit s (field_get (flds ! f) (regs rm))) OR
                push_bit (s + hweight_long (f_mask (flds ! f))) (group_value flds grp (regs rm1))), rm')"
      and ff: "fault_free rm'" and rg: "regs rm' = regs rm1"
      by blast
    from False ok(1) sh(1) r1 l rg1 have
      "group_read_loop flds (f # grp) acc s rm =
         (Inr (acc OR push_bit s (group_value flds (f # grp) (regs rm))), rm')"
      by (simp add: push_bit_or_push or.assoc)
    with ff rg rg1 show ?thesis by simp
  qed
qed




lemmas afe4410_regs =
  AFE4410_TIA_GAIN_SEP23_def AFE4410_TIA_GAIN_SEP_def AFE4410_TIA_GAIN_def
  AFE4410_LEDCNTRL2_def AFE4410_OFFDAC_def AFE4410_OFFDAC_LMSB_def AFE4410_FIFO_def

text \<open>
  Every group of the AFE4410 table is well formed and at most 32 bits wide, whatever the
  address of \<open>AFE440X_LEDCNTRL\<close>.
\<close>

lemma afe4410_groups_ok:
  "list_all (\<lambda>grp. group_ok (afe4410_reg_fields l) grp \<and>
                    group_width (afe4410_reg_fields l) grp \<le> 32) afe4410_groups"
  by (simp add: afe4410_groups_def afe4410_reg_fields_def REG_FIELD_def field_ok_def
      fields_disjoint_def rf_width_def afe4410_regs)

text \<open>
  C1. For every well-formed field group of total width \<open>W \<le> 32\<close> and every value \<open>v\<close>,
  writing \<open>v\<close> to the group and reading the group back over a fault-free transport
  succeeds and returns \<open>v mod 2 ^ W\<close>: the bits of \<open>v\<close> above the group's width are lost
  on the write without an error.
\<close>

theorem group_write_read_roundtrip:
  assumes "group_ok tbl grp" and "group_width tbl grp \<le> 32" and "fault_free rm"
  shows "\<exists>rm' rm'' val.
           regmap_group_write (map devm_regmap_field_alloc tbl) grp v rm = (Inr (), rm') \<and>
           regmap_group_read (map devm_regmap_field_alloc tbl) grp rm' = (Inr val, rm'') \<and>
           unat val = unat v mod 2 ^ group_width tbl grp"
proof -
  from group_write_ok [OF assms(1,3), of v] obtain rm' where
    w: "regmap_group_write (map devm_regmap_field_alloc tbl) grp v rm = (Inr (), rm')"
    and ff: "fault_free rm'"
    and gv: "group_value (map devm_regmap_field_alloc tbl) grp (regs rm') =
             take_bit (group_width tbl grp) v"
    by blast
  from assms(1) have "group_in_range (length (map devm_regmap_field_alloc tbl)) grp"
    by (simp add: group_ok_in_range)
  moreover from assms(1,2) have "group_shifts_ok (map devm_regmap_field_alloc tbl) grp 0"
    by (simp add: group_ok_shifts)
  ultimately have "\<exists>rm''. group_read_loop (map devm_regmap_field_alloc tbl) grp 0 0 rm' =
      (Inr (0 OR push_bit 0 (group_value (map devm_regmap_field_alloc tbl) grp (regs rm'))), rm'') \<and>
      fault_free rm'' \<and> regs rm'' = regs rm'"
    using ff by (rule group_read_loop_value)
  with gv obtain rm'' where
    r: "regmap_group_read (map devm_regmap_field_alloc tbl) grp rm' =
        (Inr (take_bit (group_width tbl grp) v), rm'')"
    by (auto simp: regmap_group_read_def)
  have "unat (take_bit (group_width tbl grp) v) = unat v mod 2 ^ group_width tbl grp"
    unfolding unsigned_take_bit_eq by (simp add: take_bit_eq_mod)
  with w r show ?thesis by blast
qed

text \<open>
  The theorem at the group \<open>G_OFFDAC_LED2\<close> of the AFE4410, which is 7 bits wide, and the
  value \<open>0xABCD\<close>: the read returns \<open>0xABCD mod 128 = 77\<close>.
\<close>

theorem group_write_read_roundtrip_witness:
  "group_ok (afe4410_reg_fields 0x22) (afe4410_groups ! 12) \<and>
   group_width (afe4410_reg_fields 0x22) (afe4410_groups ! 12) \<le> 32 \<and>
   fault_free \<lparr>regs = \<lambda>_. 0, faults = []\<rparr> \<and>
   (\<exists>rm' rm'' val.
      regmap_group_write (map devm_regmap_field_alloc (afe4410_reg_fields 0x22))
        (afe4410_groups ! 12) 0xABCD \<lparr>regs = \<lambda>_. 0, faults = []\<rparr> = (Inr (), rm') \<and>
      regmap_group_read (map devm_regmap_field_alloc (afe4410_reg_fields 0x22))
        (afe4410_groups ! 12) rm' = (Inr val, rm'') \<and>
      unat val = 77)"
proof -
  have g: "afe4410_groups ! 12 = [40, 35, 27, 36, 0, 0]"
    by (simp add: afe4410_groups_def)
  have h1: "group_ok (afe4410_reg_fields 0x22) (afe4410_groups ! 12)"
    unfolding g
    by (simp add: afe4410_reg_fields_def REG_FIELD_def field_ok_def
        fields_disjoint_def afe4410_regs)
  have w: "group_width (afe4410_reg_fields 0x22) (afe4410_groups ! 12) = 7"
    unfolding g by (simp add: afe4410_reg_fields_def REG_FIELD_def rf_width_def)
  then have h2: "group_width (afe4410_reg_fields 0x22) (afe4410_groups ! 12) \<le> 32"
    by simp
  have h3: "fault_free \<lparr>regs = \<lambda>_. 0, faults = []\<rparr>"
    by (simp add: fault_free_def)
  from group_write_read_roundtrip [OF h1 h2 h3, of "0xABCD"] w h1 h2 h3
  show ?thesis by simp
qed



section \<open>Properties of the byte-stream FIFO decoder\<close>

lemma store_s32_other:
  "a < 4 * i \<or> 4 * i + 4 \<le> a \<Longrightarrow> store_s32 e mem i v a = mem a"
  by (cases e) (auto simp: store_s32_def)

lemma load_s32_cong:
  "(\<And>j. j < 4 \<Longrightarrow> m1 (4 * i + j) = m2 (4 * i + j)) \<Longrightarrow> load_s32 e m1 i = load_s32 e m2 i"
proof -
  assume h: "\<And>j. j < 4 \<Longrightarrow> m1 (4 * i + j) = m2 (4 * i + j)"
  from h [of 0] h [of 1] h [of 2] h [of 3] show ?thesis
    by (cases e) (simp_all add: load_s32_def)
qed

lemma bytes_le: 
  "(ucast (ucast v :: u8) :: u32) OR push_bit 8 (ucast (ucast (drop_bit 8 v) :: u8)) OR
   push_bit 16 (ucast (ucast (drop_bit 16 v) :: u8)) OR
   push_bit 24 (ucast (ucast (drop_bit 24 v) :: u8)) = v"
proof (rule bit_eqI)
  fix n
  assume "possible_bit TYPE(u32) n"
  then have "n < 32" by simp
  then consider "n < 8" | "8 \<le> n" "n < 16" | "16 \<le> n" "n < 24" | "24 \<le> n" "n < 32"
    by linarith
  then show "bit ((ucast (ucast v :: u8) :: u32) OR push_bit 8 (ucast (ucast (drop_bit 8 v) :: u8)) OR
      push_bit 16 (ucast (ucast (drop_bit 16 v) :: u8)) OR
      push_bit 24 (ucast (ucast (drop_bit 24 v) :: u8))) n = bit v n"
    by cases (auto simp add: bit_simps)
qed

lemma load_store_s32: "load_s32 e (store_s32 e mem i v) i = v"
proof (cases e)
  case Little_endian
  with bytes_le [of v] show ?thesis by (simp add: load_s32_def store_s32_def)
next
  case Big_endian
  with bytes_le [of v] show ?thesis by (simp add: load_s32_def store_s32_def ac_simps)
qed

lemma byte_bit: "bit (b :: u8) n \<Longrightarrow> n < 8"
  using bit_imp_le_length [of b n] by simp

lemma unat_be24: "unat (be24 b0 b1 b2) = unat b0 * 65536 + unat b1 * 256 + unat b2"
proof -
  have u: "unat (be24 b0 b1 b2) = push_bit 16 (unat b0) OR push_bit 8 (unat b1) OR unat b2"
    unfolding be24_def
    by (rule bit_eqI) (auto simp add: bit_simps dest: byte_bit)
  have 1: "push_bit 8 (unat b1) + unat b2 = push_bit 8 (unat b1) OR unat b2"
    by (rule disjunctive_add) (auto simp add: bit_simps dest: byte_bit)
  have 2: "push_bit 16 (unat b0) + (push_bit 8 (unat b1) OR unat b2) =
           push_bit 16 (unat b0) OR (push_bit 8 (unat b1) OR unat b2)"
    by (rule disjunctive_add) (auto simp add: bit_simps dest: byte_bit)
  from u 1 2 show ?thesis by (simp add: push_bit_eq_mult)
qed

lemma fix_byte_order_inv:
  "(\<forall>a. 4 * nat (k + 1) \<le> a \<longrightarrow> fix_byte_order e k mem a = mem a) \<and>
   (\<forall>i. 0 \<le> i \<and> i \<le> k \<longrightarrow>
      load_s32 e (fix_byte_order e k mem) (nat i) =
      be24 (mem (nat (i * 3))) (mem (nat (i * 3) + 1)) (mem (nat (i * 3) + 2)))"
proof (induction e k mem rule: fix_byte_order.induct)
  case (1 e k mem)
  show ?case
  proof (cases "0 \<le> k")
    case False
    then have "fix_byte_order e k mem = mem" by (simp add: fix_byte_order.simps)
    with False show ?thesis by auto
  next
    case True
    define v where "v = be24 (mem (nat (k * 3))) (mem (nat (k * 3) + 1)) (mem (nat (k * 3) + 2))"
    define mem1 where "mem1 = store_s32 e mem (nat k) v"
    have step: "fix_byte_order e k mem = fix_byte_order e (k - 1) mem1"
      using True by (subst fix_byte_order.simps) (simp add: mem1_def v_def Let_def)
    from "1.IH" [OF True refl] have
      ih1: "\<And>a. 4 * nat k \<le> a \<Longrightarrow> fix_byte_order e (k - 1) mem1 a = mem1 a"
      and ih2: "\<And>i. 0 \<le> i \<Longrightarrow> i \<le> k - 1 \<Longrightarrow>
              load_s32 e (fix_byte_order e (k - 1) mem1) (nat i) =
              be24 (mem1 (nat (i * 3))) (mem1 (nat (i * 3) + 1)) (mem1 (nat (i * 3) + 2))"
      by (simp_all add: mem1_def v_def)
    have a: "fix_byte_order e k mem a = mem a" if "4 * nat (k + 1) \<le> a" for a
    proof -
      from that True have "4 * nat k + 4 \<le> a" by (simp add: nat_add_distrib)
      then show ?thesis
        unfolding step using ih1 [of a] by (simp add: mem1_def store_s32_other)
    qed
    have b: "load_s32 e (fix_byte_order e k mem) (nat i) =
             be24 (mem (nat (i * 3))) (mem (nat (i * 3) + 1)) (mem (nat (i * 3) + 2))"
      if "0 \<le> i" "i \<le> k" for i
    proof (cases "i = k")
      case True
      have "load_s32 e (fix_byte_order e (k - 1) mem1) (nat k) = load_s32 e mem1 (nat k)"
        by (rule load_s32_cong) (simp add: ih1)
      with True show ?thesis
        unfolding step by (simp add: mem1_def load_store_s32 v_def)
    next
      case False
      with that have lt: "i \<le> k - 1" by simp
      have unch: "mem1 (nat (i * 3) + j) = mem (nat (i * 3) + j)" if "j < 3" for j
      proof -
        from \<open>0 \<le> i\<close> lt that have "nat (i * 3) + j < 4 * nat k"
          by (simp add: nat_less_iff nat_add_distrib nat_mult_distrib)
        then show ?thesis by (simp add: mem1_def store_s32_other)
      qed
      from unch [of 0] unch [of 1] unch [of 2] ih2 [OF \<open>0 \<le> i\<close> lt]
      show ?thesis unfolding step by simp
    qed
    from a b show ?thesis by blast
  qed
qed

text \<open>
  C2. \<open>afe4410_i2c_fifo_read\<close> walks the slots from the last to the first. Whatever the
  byte order of the CPU, for a buffer of \<open>len\<close> bytes, that is \<open>len >> 2\<close> slots, a
  transfer that succeeds leaves in every slot \<open>i\<close> of the buffer, read as \<open>s32\<close> at stride
  4, the value \<open>hi << 16 | mid << 8 | lo\<close> of the three bytes that the transfer left at
  offsets \<open>3 * i\<close>, \<open>3 * i + 1\<close> and \<open>3 * i + 2\<close> of the same memory. This holds for every
  number of slots, in particular for more than one.
\<close>

theorem fifo_read_descending_repack:
  assumes "adap 0xff (nat (((len * 3) div 4) mod 65536)) = (ret, data)" and "0 \<le> ret"
    and "0 \<le> i" and "i < len div 4"
  shows "\<exists>mem'. afe4410_i2c_fifo_read e adap buffer len = (0, mem') \<and>
           unat (load_s32 e mem' (nat i)) =
             unat (i2c_received buffer data (nat i * 3)) * 65536 +
             unat (i2c_received buffer data (nat i * 3 + 1)) * 256 +
             unat (i2c_received buffer data (nat i * 3 + 2))"
proof -
  let ?src = "i2c_received buffer data"
  from assms(1,2) have r: "afe4410_i2c_fifo_read e adap buffer len =
      (0, fix_byte_order e (len div 4 - 1) ?src)"
    by (simp add: afe4410_i2c_fifo_read_def)
  from assms(3,4) fix_byte_order_inv [of "len div 4 - 1" e ?src]
  have "load_s32 e (fix_byte_order e (len div 4 - 1) ?src) (nat i) =
        be24 (?src (nat (i * 3))) (?src (nat (i * 3) + 1)) (?src (nat (i * 3) + 2))"
    by simp
  moreover from assms(3) have "nat (i * 3) = nat i * 3"
    by (simp add: nat_mult_distrib)
  ultimately show ?thesis using r by (simp add: unat_be24)
qed

text \<open>
  The theorem at a buffer of 8 bytes, two slots, into which the transfer puts the six
  bytes 1 to 6: slot 1 ends as \<open>0x040506\<close>.
\<close>

theorem fifo_read_descending_repack_witness:
  "(\<lambda>addr n. (2, [1, 2, 3, 4, 5, 6])) (0xff :: u8) (nat (((8 * 3) div 4) mod 65536)) =
     (2 :: int, [1, 2, 3, 4, 5, 6 :: u8]) \<and>
   (0 :: int) \<le> 2 \<and> (0 :: int) \<le> 1 \<and> (1 :: int) < 8 div 4 \<and>
   (\<exists>mem'. afe4410_i2c_fifo_read Little_endian (\<lambda>addr n. (2, [1, 2, 3, 4, 5, 6])) (\<lambda>a. 0) 8 =
             (0, mem') \<and>
           unat (load_s32 Little_endian mem' 1) = 4 * 65536 + 5 * 256 + 6)"
  using fifo_read_descending_repack
    [where adap = "\<lambda>addr n. (2, [1, 2, 3, 4, 5, 6])" and len = 8 and ret = 2
       and data = "[1, 2, 3, 4, 5, 6]" and i = 1 and e = Little_endian and buffer = "\<lambda>a. 0"]
  by (simp add: i2c_received_def)

lemma ascending_byte_order_below:
  "0 \<le> i \<Longrightarrow> a < 4 * nat i \<Longrightarrow> ascending_byte_order e i n mem a = mem a"
proof (induction e i n mem rule: ascending_byte_order.induct)
  case (1 e i n mem)
  show ?case
  proof (cases "i < n")
    case False
    then show ?thesis by (simp add: ascending_byte_order.simps)
  next
    case True
    define mem1 where "mem1 = store_s32 e mem (nat i)
        (be24 (mem (nat (i * 3))) (mem (nat (i * 3) + 1)) (mem (nat (i * 3) + 2)))"
    have step: "ascending_byte_order e i n mem = ascending_byte_order e (i + 1) n mem1"
      using True "1.prems"(1)
      by (subst ascending_byte_order.simps) (simp add: mem1_def Let_def)
    from "1.prems" have "a < 4 * nat (i + 1)" by (simp add: nat_add_distrib)
    with "1.IH" [OF _ refl] True "1.prems"
    have "ascending_byte_order e (i + 1) n mem1 a = mem1 a"
      by (simp add: mem1_def)
    with "1.prems"(2) show ?thesis
      unfolding step by (simp add: mem1_def store_s32_other)
  qed
qed

lemma ascending_two_steps:
  assumes "1 < n"
  shows "load_s32 e (ascending_byte_order e 0 n (\<lambda>a. if a = 3 then 1 else 0)) 1 = 0"
proof -
  let ?buf = "\<lambda>a::nat. if a = 3 then 1 else (0::u8)"
  define mem1 where "mem1 = store_s32 e ?buf 0 (be24 (?buf 0) (?buf 1) (?buf 2))"
  define mem2 where "mem2 = store_s32 e mem1 1 (be24 (mem1 3) (mem1 4) (mem1 5))"
  have s0: "ascending_byte_order e 0 n ?buf = ascending_byte_order e 1 n mem1"
    using assms by (subst ascending_byte_order.simps) (simp add: mem1_def Let_def)
  have s1: "ascending_byte_order e 1 n mem1 = ascending_byte_order e 2 n mem2"
    using assms by (subst ascending_byte_order.simps) (simp add: mem2_def Let_def)
  have z: "be24 (?buf 0) (?buf 1) (?buf 2) = 0" by (simp add: be24_def)
  have m1: "mem1 3 = 0 \<and> mem1 4 = 0 \<and> mem1 5 = 0"
    unfolding mem1_def z by (cases e) (simp_all add: store_s32_def)
  have "load_s32 e (ascending_byte_order e 2 n mem2) 1 = load_s32 e mem2 1"
    by (rule load_s32_cong) (simp add: ascending_byte_order_below)
  also have "\<dots> = be24 (mem1 3) (mem1 4) (mem1 5)"
    by (simp add: mem2_def load_store_s32)
  also have "\<dots> = 0" by (simp add: m1 be24_def)
  finally show ?thesis by (simp add: s0 s1)
qed

text \<open>
  C3. For every number of slots \<open>n > 1\<close> and either byte order, the same pass in
  ascending slot order is not equivalent to the descending one: there is a buffer and a
  slot \<open>i\<close> beyond the first, \<open>0 < i < n\<close>, that the ascending pass leaves with a value
  other than \<open>hi << 16 | mid << 8 | lo\<close> of the bytes the buffer held at offsets \<open>3 * i\<close>
  to \<open>3 * i + 2\<close>, while the descending pass of the driver leaves it with that value.
  The store into slot 0 overwrites the byte at offset 3 before slot 1 reads it.
\<close>

theorem ascending_order_corrupts:
  assumes "1 < n"
  shows "\<exists>buffer i. 0 < i \<and> i < n \<and>
           unat (load_s32 e (ascending_byte_order e 0 n buffer) (nat i)) \<noteq>
             unat (buffer (nat i * 3)) * 65536 + unat (buffer (nat i * 3 + 1)) * 256 +
             unat (buffer (nat i * 3 + 2)) \<and>
           unat (load_s32 e (fix_byte_order e (n - 1) buffer) (nat i)) =
             unat (buffer (nat i * 3)) * 65536 + unat (buffer (nat i * 3 + 1)) * 256 +
             unat (buffer (nat i * 3 + 2))"
proof -
  define buf :: memory where "buf = (\<lambda>a. if a = 3 then 1 else 0)"
  have b: "buf 3 = 1" "buf 4 = 0" "buf 5 = 0" by (simp_all add: buf_def)
  have "0 \<le> (1::int) \<and> 1 \<le> n - 1" using assms by simp
  with fix_byte_order_inv [of "n - 1" e buf, THEN conjunct2, rule_format, of 1]
  have "load_s32 e (fix_byte_order e (n - 1) buf) (nat 1) =
        be24 (buf (nat (1 * 3))) (buf (nat (1 * 3) + 1)) (buf (nat (1 * 3) + 2))"
    by blast
  then have d: "unat (load_s32 e (fix_byte_order e (n - 1) buf) 1) = 65536"
    by (simp add: unat_be24 b)
  from ascending_two_steps [OF assms, of e]
  have a: "unat (load_s32 e (ascending_byte_order e 0 n buf) 1) = 0"
    by (simp add: buf_def)
  have "0 < (1::int) \<and> 1 < n \<and>
        unat (load_s32 e (ascending_byte_order e 0 n buf) (nat 1)) \<noteq>
          unat (buf (nat 1 * 3)) * 65536 + unat (buf (nat 1 * 3 + 1)) * 256 +
          unat (buf (nat 1 * 3 + 2)) \<and>
        unat (load_s32 e (fix_byte_order e (n - 1) buf) (nat 1)) =
          unat (buf (nat 1 * 3)) * 65536 + unat (buf (nat 1 * 3 + 1)) * 256 +
          unat (buf (nat 1 * 3 + 2))"
    using assms a d by (simp add: b)
  then show ?thesis by blast
qed

text \<open>The theorem at two slots on a little-endian CPU.\<close>

theorem ascending_order_corrupts_witness:
  "(1 :: int) < 2 \<and>
   (\<exists>buffer i. 0 < i \<and> i < 2 \<and>
      unat (load_s32 Little_endian (ascending_byte_order Little_endian 0 2 buffer) (nat i)) \<noteq>
        unat (buffer (nat i * 3)) * 65536 + unat (buffer (nat i * 3 + 1)) * 256 +
        unat (buffer (nat i * 3 + 2)) \<and>
      unat (load_s32 Little_endian (fix_byte_order Little_endian (2 - 1) buffer) (nat i)) =
        unat (buffer (nat i * 3)) * 65536 + unat (buffer (nat i * 3 + 1)) * 256 +
        unat (buffer (nat i * 3 + 2)))"
proof -
  have h: "(1 :: int) < 2" by simp
  from ascending_order_corrupts [OF h, of Little_endian] h show ?thesis by blast
qed

section \<open>Properties of the configuration transition\<close>

lemma regmap_update_bits_fault_free:
  assumes "fault_free rm"
  shows "\<exists>rm'. regmap_update_bits r m v rm = (0, rm') \<and> fault_free rm' \<and>
               regs rm' = (regs rm)(r := (regs rm r AND NOT m) OR (v AND m))"
  using bus_request_fault_free [OF assms]
  by (auto simp: regmap_update_bits_def fault_free_def)

lemma phase_update_loop_fault_free:
  assumes "inj reg_of" "fault_free rm"
  shows "\<exists>rm'. phase_update_loop reg_of m v i phases rm = (0, rm') \<and> fault_free rm' \<and>
               (\<forall>j. i \<le> j \<and> j < phases \<longrightarrow>
                  regs rm' (reg_of j) = (regs rm (reg_of j) AND NOT m) OR (v AND m)) \<and>
               (\<forall>r. (\<forall>j. i \<le> j \<and> j < phases \<longrightarrow> r \<noteq> reg_of j) \<longrightarrow> regs rm' r = regs rm r)"
  using assms
proof (induction reg_of m v i phases rm rule: phase_update_loop.induct)
  case (1 reg_of m v i phases rm)
  show ?case
  proof (cases "i < phases")
    case False
    then have "phase_update_loop reg_of m v i phases rm = (0, rm)"
      by (subst phase_update_loop.simps) simp
    with False "1.prems"(2) show ?thesis by auto
  next
    case True
    from regmap_update_bits_fault_free [OF "1.prems"(2), of "reg_of i" m v]
    obtain rm1 where u: "regmap_update_bits (reg_of i) m v rm = (0, rm1)"
      and ff1: "fault_free rm1"
      and rg1: "regs rm1 = (regs rm)(reg_of i := (regs rm (reg_of i) AND NOT m) OR (v AND m))"
      by blast
    have nz: "\<not> (0::int) \<noteq> 0" by simp
    from "1.IH" [OF True u [symmetric] nz "1.prems"(1) ff1]
    obtain rm' where l: "phase_update_loop reg_of m v (i + 1) phases rm1 = (0, rm')"
      and ff: "fault_free rm'"
      and upd: "\<And>j. i + 1 \<le> j \<Longrightarrow> j < phases \<Longrightarrow>
                 regs rm' (reg_of j) = (regs rm1 (reg_of j) AND NOT m) OR (v AND m)"
      and oth: "\<And>r. (\<And>j. i + 1 \<le> j \<Longrightarrow> j < phases \<Longrightarrow> r \<noteq> reg_of j) \<Longrightarrow>
                 regs rm' r = regs rm1 r"
      by blast
    have res: "phase_update_loop reg_of m v i phases rm = (0, rm')"
      using True u l by (subst phase_update_loop.simps) simp
    have ne: "reg_of j \<noteq> reg_of i" if "i + 1 \<le> j" for j
      using that inj_eq [OF "1.prems"(1), of j i] by simp
    have a: "regs rm' (reg_of j) = (regs rm (reg_of j) AND NOT m) OR (v AND m)"
      if "i \<le> j" "j < phases" for j
    proof (cases "j = i")
      case True
      have "regs rm' (reg_of i) = regs rm1 (reg_of i)"
      proof (rule oth)
        fix j assume "i + 1 \<le> j" "j < phases"
        from ne [OF this(1)] show "reg_of i \<noteq> reg_of j" by simp
      qed
      with True show ?thesis by (simp add: rg1)
    next
      case False
      with that have "i + 1 \<le> j" by simp
      from upd [OF this that(2)] ne [OF this] show ?thesis by (simp add: rg1)
    qed
    have b: "regs rm' r = regs rm r" if h: "\<forall>j. i \<le> j \<and> j < phases \<longrightarrow> r \<noteq> reg_of j" for r
    proof -
      from h True have "r \<noteq> reg_of i" by simp
      moreover have "regs rm' r = regs rm1 r"
      proof (rule oth)
        fix j assume "i + 1 \<le> j" "j < phases"
        with h show "r \<noteq> reg_of j" by simp
      qed
      ultimately show ?thesis by (simp add: rg1)
    qed
    show ?thesis
    proof (intro exI conjI allI impI)
      show "phase_update_loop reg_of m v i phases rm = (0, rm')" by (rule res)
      show "fault_free rm'" by (rule ff)
    next
      fix j assume "i \<le> j \<and> j < phases"
      then show "regs rm' (reg_of j) = (regs rm (reg_of j) AND NOT m) OR (v AND m)"
        using a by simp
    next
      fix r assume "\<forall>j. i \<le> j \<and> j < phases \<longrightarrow> r \<noteq> reg_of j"
      then show "regs rm' r = regs rm r" by (rule b)
    qed
  qed
qed


lemma regmap_update_bits_passes:
  "faults rm = 0 # rest \<Longrightarrow>
   \<exists>rm'. regmap_update_bits r m v rm = (0, rm') \<and> faults rm' = rest"
  by (simp add: regmap_update_bits_def bus_request_def)

lemma regmap_update_bits_fails:
  "e \<noteq> 0 \<Longrightarrow> faults rm = e # rest \<Longrightarrow>
   \<exists>rm'. regmap_update_bits r m v rm = (e, rm') \<and> faults rm' = rest"
  by (simp add: regmap_update_bits_def bus_request_def)

lemma phase_update_loop_faults:
  assumes "faults rm = replicate k 0 @ e # rest" "e \<noteq> 0"
  shows "\<exists>rm'. phase_update_loop reg_of m v i phases rm =
                 (if k < phases - i then e else 0, rm') \<and>
               faults rm' = (if k < phases - i then rest
                             else replicate (k - (phases - i)) 0 @ e # rest)"
  using assms
proof (induction reg_of m v i phases rm arbitrary: k rule: phase_update_loop.induct)
  case (1 reg_of m v i phases rm)
  show ?case
  proof (cases "i < phases")
    case False
    with "1.prems" show ?thesis by (simp add: phase_update_loop.simps)
  next
    case True
    show ?thesis
    proof (cases k)
      case 0
      with "1.prems" have "faults rm = e # rest" by simp
      from regmap_update_bits_fails [OF "1.prems"(2) this, of "reg_of i" m v]
      obtain rm' where "regmap_update_bits (reg_of i) m v rm = (e, rm')" "faults rm' = rest"
        by blast
      with True 0 "1.prems"(2) show ?thesis
        by (subst phase_update_loop.simps) simp
    next
      case (Suc k')
      with "1.prems" have "faults rm = 0 # (replicate k' 0 @ e # rest)" by simp
      from regmap_update_bits_passes [OF this, of "reg_of i" m v]
      obtain rm1 where u: "regmap_update_bits (reg_of i) m v rm = (0, rm1)"
        and f1: "faults rm1 = replicate k' 0 @ e # rest"
        by blast
      have nz: "\<not> (0::int) \<noteq> 0" by simp
      from "1.IH" [OF True u [symmetric] nz f1 "1.prems"(2)]
      obtain rm' where l: "phase_update_loop reg_of m v (i + 1) phases rm1 =
                            (if k' < phases - (i + 1) then e else 0, rm')"
        and f: "faults rm' = (if k' < phases - (i + 1) then rest
                              else replicate (k' - (phases - (i + 1))) 0 @ e # rest)"
        by auto
      have res: "phase_update_loop reg_of m v i phases rm =
                 (if k' < phases - (i + 1) then e else 0, rm')"
        using True u l by (subst phase_update_loop.simps) simp
      from True Suc have c: "k < phases - i \<longleftrightarrow> k' < phases - (i + 1)" by auto
      from True Suc have d: "k - (phases - i) = k' - (phases - (i + 1))" by auto
      from res f show ?thesis unfolding c d by blast
    qed
  qed
qed

lemmas afe4420_regs =
  AFE4420_CONTROL1_def AFE4420_FIFO_def
  AFE4420_POINTER_DIFF_def AFE4420_PHASE_def AFE4420_AACM_def AFE4420_PDCNTRL0_def
  AFE4420_PDCNTRL1_def AFE4420_PDCNTRL2_def AFE4420_LEDCNTRL1_def AFE4420_LEDCNTRL2_def
  AFE4420_PHASECNTRL0_def AFE4420_PHASECNTRL1_def AFE4420_PHASECNTRL2_def

lemma afe4420_field_WM_FIFO:
  "map devm_regmap_field_alloc afe4420_reg_fields ! F_WM_FIFO =
   devm_regmap_field_alloc (REG_FIELD AFE4420_FIFO 6 13)"
  by (simp add: afe4420_reg_fields_def F_WM_FIFO_def)

lemma afe4420_field_NUMPHASE:
  "map devm_regmap_field_alloc afe4420_reg_fields ! F_NUMPHASE =
   devm_regmap_field_alloc (REG_FIELD AFE4420_PHASE 0 3)"
  by (simp add: afe4420_reg_fields_def F_NUMPHASE_def)

lemma inj_PHASECNTRL0: "inj AFE4420_PHASECNTRL0"
  by (rule injI) (simp add: AFE4420_PHASECNTRL0_def)

lemma inj_PHASECNTRL2: "inj AFE4420_PHASECNTRL2"
  by (rule injI) (simp add: AFE4420_PHASECNTRL2_def)

lemma PHASECNTRL_distinct:
  "AFE4420_PHASECNTRL0 i \<noteq> AFE4420_PHASECNTRL2 j"
  "AFE4420_PHASECNTRL0 i \<noteq> AFE4420_FIFO" "AFE4420_PHASECNTRL0 i \<noteq> AFE4420_PHASE"
  "AFE4420_PHASECNTRL2 i \<noteq> AFE4420_FIFO" "AFE4420_PHASECNTRL2 i \<noteq> AFE4420_PHASE"
  "AFE4420_FIFO \<noteq> AFE4420_PHASE"
  by (simp_all add: afe4420_regs) presburger

lemma field_get_WM_FIFO:
  "field_get (devm_regmap_field_alloc (REG_FIELD AFE4420_FIFO 6 13)) r =
   take_bit 8 (drop_bit 6 (r AFE4420_FIFO))"
  unfolding field_get_def devm_regmap_field_alloc_def REG_FIELD_def
  by (rule bit_eqI) (auto simp add: bit_simps bit_GENMASK)

lemma field_get_NUMPHASE:
  "field_get (devm_regmap_field_alloc (REG_FIELD AFE4420_PHASE 0 3)) r =
   take_bit 4 (r AFE4420_PHASE)"
  unfolding field_get_def devm_regmap_field_alloc_def REG_FIELD_def
  by (rule bit_eqI) (auto simp add: bit_simps bit_GENMASK)

lemma unat_take_bit_of_nat:
  "k < 2 ^ n \<Longrightarrow> n \<le> 32 \<Longrightarrow> unat (take_bit n (of_nat k :: u32)) = k"
proof -
  assume k: "k < 2 ^ n" and n: "n \<le> 32"
  have "unat (take_bit n (of_nat k :: u32)) = take_bit n (take_bit 32 k)"
    by (simp add: unsigned_take_bit_eq unsigned_of_nat)
  also have "\<dots> = take_bit n k" using n by (simp add: min_def)
  also have "\<dots> = k" using k by (simp add: take_bit_nat_eq_self)
  finally show ?thesis .
qed

lemma find_first_zero_bit_GENMASK:
  assumes "1 \<le> p" "p \<le> 16"
  shows "find_first_zero_bit (GENMASK (p - 1) 0) 16 = p"
proof -
  have b: "bit (GENMASK (p - 1) 0) n \<longleftrightarrow> n \<le> p - 1" for n
    using assms by (simp add: bit_GENMASK)
  have "List.find (\<lambda>n. \<not> bit (GENMASK (p - 1) 0) n) [0..<16] = (if p < 16 then Some p else None)"
    using assms unfolding b
    by (auto simp add: find_Some_iff find_None_iff) 
  with assms show ?thesis by (simp add: find_first_zero_bit_def)
qed

text \<open>
  C6. For every new active phase count \<open>p\<close> from 1 to 16, a configuration transition over
  a fault-free transport succeeds, stores \<open>p\<close> as the active phase count, and leaves the
  watermark field of the FIFO register (bits 6 to 13) at \<open>p * 10 - 1\<close> and the phase-count
  field of the PHASE register (bits 0 to 3) at \<open>p - 1\<close>. It enables the photodiode and
  programs the sample time \<open>AFE4420_DEFAULT_TWLED\<close> for the phases below \<open>p\<close> and leaves the
  registers of the other phases as they were. The instances \<open>p = 4\<close> (watermark 39, phase
  count 3, four phases programmed) and \<open>p = 16\<close> (watermark 159) follow.
\<close>

theorem update_scan_mode_programs_watermark_and_phase_count:
  assumes "afe_fields afe = map devm_regmap_field_alloc afe4420_reg_fields"
    and "fault_free (afe_regmap afe)"
    and "find_first_zero_bit scan_mask masklength = p" and "1 \<le> p" and "p \<le> 16"
  shows "\<exists>afe'. afe4420_update_scan_mode afe scan_mask masklength = (0, afe') \<and>
           unat (used_phases afe') = p \<and>
           unat (take_bit 8 (drop_bit 6 (regs (afe_regmap afe') AFE4420_FIFO))) = p * 10 - 1 \<and>
           unat (take_bit 4 (regs (afe_regmap afe') AFE4420_PHASE)) = p - 1 \<and>
           (\<forall>i<p. bit (regs (afe_regmap afe') (AFE4420_PHASECNTRL0 i)) 16 \<and>
                  take_bit 8 (regs (afe_regmap afe') (AFE4420_PHASECNTRL2 i)) = AFE4420_DEFAULT_TWLED) \<and>
           (\<forall>i\<ge>p. regs (afe_regmap afe') (AFE4420_PHASECNTRL0 i) =
                    regs (afe_regmap afe) (AFE4420_PHASECNTRL0 i) \<and>
                  regs (afe_regmap afe') (AFE4420_PHASECNTRL2 i) =
                    regs (afe_regmap afe) (AFE4420_PHASECNTRL2 i))"
proof -
  let ?rm = "afe_regmap afe"
  let ?on = AFE4420_PHASECNTRL0_PD_ON1
  let ?tw = AFE4420_PHASECNTRL2_TWLED
  let ?wm = "devm_regmap_field_alloc (REG_FIELD AFE4420_FIFO 6 13)"
  let ?np = "devm_regmap_field_alloc (REG_FIELD AFE4420_PHASE 0 3)"
  from phase_update_loop_fault_free [OF inj_PHASECNTRL0 assms(2), of ?on ?on 0 p]
  obtain rm1 where l1: "phase_update_loop AFE4420_PHASECNTRL0 ?on ?on 0 p ?rm = (0, rm1)"
    and ff1: "fault_free rm1"
    and u1: "\<And>j. j < p \<Longrightarrow> regs rm1 (AFE4420_PHASECNTRL0 j) =
               (regs ?rm (AFE4420_PHASECNTRL0 j) AND NOT ?on) OR (?on AND ?on)"
    and o1: "\<And>r. (\<forall>j. 0 \<le> j \<and> j < p \<longrightarrow> r \<noteq> AFE4420_PHASECNTRL0 j) \<Longrightarrow> regs rm1 r = regs ?rm r"
    by auto
  from phase_update_loop_fault_free [OF inj_PHASECNTRL2 ff1, of ?tw AFE4420_DEFAULT_TWLED 0 p]
  obtain rm2 where l2: "phase_update_loop AFE4420_PHASECNTRL2 ?tw AFE4420_DEFAULT_TWLED 0 p rm1 = (0, rm2)"
    and ff2: "fault_free rm2"
    and u2: "\<And>j. j < p \<Longrightarrow> regs rm2 (AFE4420_PHASECNTRL2 j) =
               (regs rm1 (AFE4420_PHASECNTRL2 j) AND NOT ?tw) OR (AFE4420_DEFAULT_TWLED AND ?tw)"
    and o2: "\<And>r. (\<forall>j. 0 \<le> j \<and> j < p \<longrightarrow> r \<noteq> AFE4420_PHASECNTRL2 j) \<Longrightarrow> regs rm2 r = regs rm1 r"
    by auto
  let ?v3 = "of_nat p * AFE4420_FIFO_LEN - 1 :: u32"
  from regmap_field_write_fault_free [OF ff2, of ?wm ?v3]
  obtain rm3 where w3: "regmap_field_write ?wm ?v3 rm2 = (0, rm3)"
    and ff3: "fault_free rm3"
    and r3: "regs rm3 = (regs rm2)(AFE4420_FIFO :=
               (regs rm2 AFE4420_FIFO AND NOT (GENMASK 13 6)) OR (push_bit 6 ?v3 AND GENMASK 13 6))"
    by (auto simp: devm_regmap_field_alloc_def REG_FIELD_def)
  let ?v4 = "of_nat p - 1 :: u32"
  from regmap_field_write_fault_free [OF ff3, of ?np ?v4]
  obtain rm4 where w4: "regmap_field_write ?np ?v4 rm3 = (0, rm4)"
    and r4: "regs rm4 = (regs rm3)(AFE4420_PHASE :=
               (regs rm3 AFE4420_PHASE AND NOT (GENMASK 3 0)) OR (push_bit 0 ?v4 AND GENMASK 3 0))"
    by (auto simp: devm_regmap_field_alloc_def REG_FIELD_def)
  let ?afe' = "afe\<lparr>afe_regmap := rm4, used_phases := of_nat p\<rparr>"
  have res: "afe4420_update_scan_mode afe scan_mask masklength = (0, ?afe')"
    unfolding afe4420_update_scan_mode_def
    by (simp add: assms(1,3) afe4420_field_WM_FIFO afe4420_field_NUMPHASE l1 l2 w3 w4
        del: map_eq_conv)
  have up: "unat (of_nat p :: u32) = p"
    using assms(5) by (simp add: unsigned_of_nat take_bit_nat_eq_self)
  have v3: "?v3 = of_nat (p * 10 - 1)"
    using assms(4) by (simp add: AFE4420_FIFO_LEN_def of_nat_diff)
  have v4: "?v4 = of_nat (p - 1)"
    using assms(4) by (simp add: of_nat_diff)
  have wmf: "field_get ?wm (regs rm3) = take_bit 8 ?v3"
    using field_get_same [of "REG_FIELD AFE4420_FIFO 6 13" "regs rm2" ?v3]
    by (simp add: r3 REG_FIELD_def field_ok_def rf_width_def)
  have wm: "unat (take_bit 8 (drop_bit 6 (regs rm4 AFE4420_FIFO))) = p * 10 - 1"
  proof -
    have "regs rm4 AFE4420_FIFO = regs rm3 AFE4420_FIFO"
      using PHASECNTRL_distinct(6) by (simp add: r4)
    moreover have "take_bit 8 (drop_bit 6 (regs rm3 AFE4420_FIFO)) = take_bit 8 ?v3"
      using wmf by (simp add: field_get_WM_FIFO)
    moreover have "unat (take_bit 8 (of_nat (p * 10 - 1) :: u32)) = p * 10 - 1"
      by (rule unat_take_bit_of_nat) (use assms(5) in simp_all)
    ultimately show ?thesis by (simp add: v3)
  qed
  have npf: "field_get ?np (regs rm4) = take_bit 4 ?v4"
    using field_get_same [of "REG_FIELD AFE4420_PHASE 0 3" "regs rm3" ?v4]
    by (simp add: r4 REG_FIELD_def field_ok_def rf_width_def)
  have np: "unat (take_bit 4 (regs rm4 AFE4420_PHASE)) = p - 1"
  proof -
    have "take_bit 4 (regs rm4 AFE4420_PHASE) = take_bit 4 ?v4"
      using npf by (simp add: field_get_NUMPHASE)
    moreover have "unat (take_bit 4 (of_nat (p - 1) :: u32)) = p - 1"
      by (rule unat_take_bit_of_nat) (use assms(5) in simp_all)
    ultimately show ?thesis by (simp add: v4)
  qed
  have later: "regs rm4 r = regs rm2 r" if "r \<noteq> AFE4420_FIFO" "r \<noteq> AFE4420_PHASE" for r
    using that by (simp add: r4 r3)
  have c0: "regs rm4 (AFE4420_PHASECNTRL0 i) = regs rm1 (AFE4420_PHASECNTRL0 i)" for i
    using later [of "AFE4420_PHASECNTRL0 i"] o2 [of "AFE4420_PHASECNTRL0 i"]
    by (simp add: PHASECNTRL_distinct)
  have c2: "regs rm4 (AFE4420_PHASECNTRL2 i) = regs rm2 (AFE4420_PHASECNTRL2 i)" for i
    using later [of "AFE4420_PHASECNTRL2 i"] by (simp add: PHASECNTRL_distinct)
  have on: "bit (regs rm4 (AFE4420_PHASECNTRL0 i)) 16 \<and>
            take_bit 8 (regs rm4 (AFE4420_PHASECNTRL2 i)) = AFE4420_DEFAULT_TWLED" if "i < p" for i
  proof
    show "bit (regs rm4 (AFE4420_PHASECNTRL0 i)) 16"
      unfolding c0 u1 [OF that]
      by (simp add: bit_simps AFE4420_PHASECNTRL0_PD_ON1_def BIT_def)
    have tb: "take_bit 8 ((x AND NOT ?tw) OR (v AND ?tw)) = take_bit 8 v" for x v :: u32
      unfolding AFE4420_PHASECNTRL2_TWLED_def
      by (rule bit_eqI) (auto simp add: bit_simps bit_GENMASK)
    have dt: "take_bit 8 AFE4420_DEFAULT_TWLED = AFE4420_DEFAULT_TWLED"
      by (simp add: AFE4420_DEFAULT_TWLED_def)
    have "take_bit 8 ((x AND NOT ?tw) OR (AFE4420_DEFAULT_TWLED AND ?tw)) =
        AFE4420_DEFAULT_TWLED" for x :: u32
      using tb [of x AFE4420_DEFAULT_TWLED] dt by (simp only:)
    then show "take_bit 8 (regs rm4 (AFE4420_PHASECNTRL2 i)) = AFE4420_DEFAULT_TWLED"
      unfolding c2 u2 [OF that] .
  qed
  have off: "regs rm4 (AFE4420_PHASECNTRL0 i) = regs ?rm (AFE4420_PHASECNTRL0 i) \<and>
             regs rm4 (AFE4420_PHASECNTRL2 i) = regs ?rm (AFE4420_PHASECNTRL2 i)" if "p \<le> i" for i
  proof
    have "\<forall>j. 0 \<le> j \<and> j < p \<longrightarrow> AFE4420_PHASECNTRL0 i \<noteq> AFE4420_PHASECNTRL0 j"
      using that inj_eq [OF inj_PHASECNTRL0] by auto
    from o1 [OF this] show "regs rm4 (AFE4420_PHASECNTRL0 i) = regs ?rm (AFE4420_PHASECNTRL0 i)"
      by (simp add: c0)
    have n2: "\<forall>j. 0 \<le> j \<and> j < p \<longrightarrow> AFE4420_PHASECNTRL2 i \<noteq> AFE4420_PHASECNTRL2 j"
      using that inj_eq [OF inj_PHASECNTRL2] by auto
    have "\<forall>j. 0 \<le> j \<and> j < p \<longrightarrow> AFE4420_PHASECNTRL2 i \<noteq> AFE4420_PHASECNTRL0 j"
      using PHASECNTRL_distinct(1) by metis
    from o1 [OF this] o2 [OF n2]
    show "regs rm4 (AFE4420_PHASECNTRL2 i) = regs ?rm (AFE4420_PHASECNTRL2 i)"
      by (simp add: c2)
  qed
  show ?thesis
  proof (intro exI conjI allI impI)
    show "afe4420_update_scan_mode afe scan_mask masklength = (0, ?afe')" by (rule res)
    show "unat (used_phases ?afe') = p" using up by simp
    show "unat (take_bit 8 (drop_bit 6 (regs (afe_regmap ?afe') AFE4420_FIFO))) = p * 10 - 1"
      using wm by simp
    show "unat (take_bit 4 (regs (afe_regmap ?afe') AFE4420_PHASE)) = p - 1"
      using np by simp
  next
    fix i assume "i < p"
    from on [OF this]
    show "bit (regs (afe_regmap ?afe') (AFE4420_PHASECNTRL0 i)) 16"
      and "take_bit 8 (regs (afe_regmap ?afe') (AFE4420_PHASECNTRL2 i)) = AFE4420_DEFAULT_TWLED"
      by simp_all
  next
    fix i assume "p \<le> i"
    from off [OF this]
    show "regs (afe_regmap ?afe') (AFE4420_PHASECNTRL0 i) = regs ?rm (AFE4420_PHASECNTRL0 i)"
      and "regs (afe_regmap ?afe') (AFE4420_PHASECNTRL2 i) = regs ?rm (AFE4420_PHASECNTRL2 i)"
      by simp_all
  qed
qed

lemma find_first_zero_bit_0xF: "find_first_zero_bit 0xF 16 = 4"
  by code_simp

lemma find_first_zero_bit_0xFFFF: "find_first_zero_bit 0xFFFF 16 = 16"
  by code_simp

lemma update_scan_mode_partial_example:
  "regs (afe_regmap (snd (afe4420_update_scan_mode
      ((afe4420_instance \<lparr>regs = \<lambda>_. 0, faults = [0, 0, 0, 0, 0, 0, 0, 0, - 5]\<rparr> (\<lambda>b l. (0, b)))
         \<lparr>used_phases := 2\<rparr>) 0xF 16))) (AFE4420_PHASECNTRL0 3) = 0x10000"
  by code_simp

text \<open>
  The theorem at the scan masks of four and of sixteen phases, on an instance whose
  registers are all zero.
\<close>

theorem update_scan_mode_programs_watermark_and_phase_count_witness:
  "afe_fields (afe4420_instance \<lparr>regs = \<lambda>_. 0, faults = []\<rparr> (\<lambda>b l. (0, b))) =
     map devm_regmap_field_alloc afe4420_reg_fields \<and>
   fault_free (afe_regmap (afe4420_instance \<lparr>regs = \<lambda>_. 0, faults = []\<rparr> (\<lambda>b l. (0, b)))) \<and>
   find_first_zero_bit 0xF 16 = 4 \<and> (1 :: nat) \<le> 4 \<and> (4 :: nat) \<le> 16 \<and>
   (\<exists>afe'. afe4420_update_scan_mode
             (afe4420_instance \<lparr>regs = \<lambda>_. 0, faults = []\<rparr> (\<lambda>b l. (0, b))) 0xF 16 = (0, afe') \<and>
           unat (used_phases afe') = 4 \<and>
           unat (take_bit 8 (drop_bit 6 (regs (afe_regmap afe') AFE4420_FIFO))) = 39 \<and>
           unat (take_bit 4 (regs (afe_regmap afe') AFE4420_PHASE)) = 3 \<and>
           (\<forall>i<4. bit (regs (afe_regmap afe') (AFE4420_PHASECNTRL0 i)) 16 \<and>
                  take_bit 8 (regs (afe_regmap afe') (AFE4420_PHASECNTRL2 i)) = 6) \<and>
           (\<forall>i\<ge>4. regs (afe_regmap afe') (AFE4420_PHASECNTRL0 i) = 0 \<and>
                    regs (afe_regmap afe') (AFE4420_PHASECNTRL2 i) = 0)) \<and>
   find_first_zero_bit 0xFFFF 16 = 16 \<and>
   (\<exists>afe'. afe4420_update_scan_mode
             (afe4420_instance \<lparr>regs = \<lambda>_. 0, faults = []\<rparr> (\<lambda>b l. (0, b))) 0xFFFF 16 = (0, afe') \<and>
           unat (take_bit 8 (drop_bit 6 (regs (afe_regmap afe') AFE4420_FIFO))) = 159)"
proof -
  let ?afe = "afe4420_instance \<lparr>regs = \<lambda>_. 0, faults = []\<rparr> (\<lambda>b l. (0, b))"
  have h1: "afe_fields ?afe = map devm_regmap_field_alloc afe4420_reg_fields"
    by (simp add: afe4420_instance_def)
  have h2: "fault_free (afe_regmap ?afe)"
    by (simp add: afe4420_instance_def fault_free_def)
  have h34: "(1 :: nat) \<le> 4" "(4 :: nat) \<le> 16" by simp_all
  have h316: "(1 :: nat) \<le> 16" "(16 :: nat) \<le> 16" by simp_all
  have r0: "regs (afe_regmap ?afe) = (\<lambda>_. 0)" by (simp add: afe4420_instance_def)
  from update_scan_mode_programs_watermark_and_phase_count [OF h1 h2 find_first_zero_bit_0xF h34]
  have a: "\<exists>afe'. afe4420_update_scan_mode ?afe 0xF 16 = (0, afe') \<and>
           unat (used_phases afe') = 4 \<and>
           unat (take_bit 8 (drop_bit 6 (regs (afe_regmap afe') AFE4420_FIFO))) = 39 \<and>
           unat (take_bit 4 (regs (afe_regmap afe') AFE4420_PHASE)) = 3 \<and>
           (\<forall>i<4. bit (regs (afe_regmap afe') (AFE4420_PHASECNTRL0 i)) 16 \<and>
                  take_bit 8 (regs (afe_regmap afe') (AFE4420_PHASECNTRL2 i)) = 6) \<and>
           (\<forall>i\<ge>4. regs (afe_regmap afe') (AFE4420_PHASECNTRL0 i) = 0 \<and>
                    regs (afe_regmap afe') (AFE4420_PHASECNTRL2 i) = 0)"
    by (simp add: r0 AFE4420_DEFAULT_TWLED_def)
  from update_scan_mode_programs_watermark_and_phase_count [OF h1 h2 find_first_zero_bit_0xFFFF h316]
  have b: "\<exists>afe'. afe4420_update_scan_mode ?afe 0xFFFF 16 = (0, afe') \<and>
           unat (take_bit 8 (drop_bit 6 (regs (afe_regmap afe') AFE4420_FIFO))) = 159"
    by auto
  from h1 h2 find_first_zero_bit_0xF h34 a find_first_zero_bit_0xFFFF b show ?thesis by blast
qed

lemma update_scan_mode_used_phases:
  assumes "afe4420_update_scan_mode afe scan_mask masklength = (ret, afe')"
  shows "(ret = 0 \<longrightarrow> used_phases afe' = of_nat (find_first_zero_bit scan_mask masklength)) \<and>
         (ret \<noteq> 0 \<longrightarrow> afe' = afe\<lparr>afe_regmap := afe_regmap afe'\<rparr>)"
  using assms unfolding afe4420_update_scan_mode_def Let_def
  by (auto split: prod.splits if_splits)

lemma update_scan_mode_fails:
  assumes "faults (afe_regmap afe) = replicate k 0 @ e # rest" and "e \<noteq> 0"
    and "k < 2 * find_first_zero_bit scan_mask masklength + 2"
  shows "\<exists>afe'. afe4420_update_scan_mode afe scan_mask masklength = (e, afe') \<and>
               faults (afe_regmap afe') = rest"
proof -
  define p where "p = find_first_zero_bit scan_mask masklength"
  let ?on = AFE4420_PHASECNTRL0_PD_ON1
  let ?tw = AFE4420_PHASECNTRL2_TWLED
  from phase_update_loop_faults [OF assms(1,2), of AFE4420_PHASECNTRL0 ?on ?on 0 p]
  obtain rm1 where l1: "phase_update_loop AFE4420_PHASECNTRL0 ?on ?on 0 p (afe_regmap afe) =
                         (if k < p then e else 0, rm1)"
    and f1: "faults rm1 = (if k < p then rest else replicate (k - p) 0 @ e # rest)"
    by auto
  show ?thesis
  proof (cases "k < p")
    case True
    with l1 f1 assms(2) show ?thesis
      unfolding afe4420_update_scan_mode_def p_def [symmetric] by simp
  next
    case False
    with f1 have f1': "faults rm1 = replicate (k - p) 0 @ e # rest" by simp
    from phase_update_loop_faults [OF f1' assms(2), of AFE4420_PHASECNTRL2 ?tw AFE4420_DEFAULT_TWLED 0 p]
    obtain rm2 where l2: "phase_update_loop AFE4420_PHASECNTRL2 ?tw AFE4420_DEFAULT_TWLED 0 p rm1 =
                           (if k - p < p then e else 0, rm2)"
      and f2: "faults rm2 = (if k - p < p then rest else replicate (k - p - p) 0 @ e # rest)"
      by auto
    show ?thesis
    proof (cases "k - p < p")
      case True
      with False l1 l2 f2 assms(2) show ?thesis
        unfolding afe4420_update_scan_mode_def p_def [symmetric] by simp
    next
      case nlt: False
      from assms(3) False nlt have "k - p - p = 0 \<or> k - p - p = 1"
        unfolding p_def [symmetric] by linarith
      then show ?thesis
      proof
        assume "k - p - p = 0"
        with f2 nlt have "faults rm2 = e # rest" by simp
        from regmap_update_bits_fails [OF assms(2) this]
        obtain rm3 where "regmap_field_write (afe_fields afe ! F_WM_FIFO)
                            (of_nat p * AFE4420_FIFO_LEN - 1) rm2 = (e, rm3)"
          and "faults rm3 = rest"
          unfolding regmap_field_write_def by blast
        with False nlt l1 l2 assms(2) show ?thesis
          unfolding afe4420_update_scan_mode_def p_def [symmetric] by simp
      next
        assume "k - p - p = 1"
        with f2 nlt have "faults rm2 = 0 # e # rest" by simp
        from regmap_update_bits_passes [OF this]
        obtain rm3 where w3: "regmap_field_write (afe_fields afe ! F_WM_FIFO)
                            (of_nat p * AFE4420_FIFO_LEN - 1) rm2 = (0, rm3)"
          and f3: "faults rm3 = e # rest"
          unfolding regmap_field_write_def by blast
        from regmap_update_bits_fails [OF assms(2) f3]
        obtain rm4 where "regmap_field_write (afe_fields afe ! F_NUMPHASE) (of_nat p - 1) rm3 = (e, rm4)"
          and "faults rm4 = rest"
          unfolding regmap_field_write_def by blast
        with False nlt l1 l2 w3 assms(2) show ?thesis
          unfolding afe4420_update_scan_mode_def p_def [symmetric] by simp
      qed
    qed
  qed
qed

text \<open>
  C10. \<open>afe4420_update_scan_mode\<close> assigns \<open>used_phases\<close> only on the path where it
  returns 0, after the photodiode enables, the sample times, the watermark write and the
  phase-count write have all succeeded. When any of these \<open>2 * phases + 2\<close> register
  accesses fails, the function returns that error, makes no further access, and
  \<open>used_phases\<close> keeps the value it had, whatever was written to the device before the
  failure.
\<close>

theorem update_scan_mode_failure_keeps_used_phases:
  "(\<forall>ret afe'. afe4420_update_scan_mode afe scan_mask masklength = (ret, afe') \<longrightarrow>
      (if ret = 0 then used_phases afe' = of_nat (find_first_zero_bit scan_mask masklength)
       else used_phases afe' = used_phases afe)) \<and>
   (\<forall>k e rest.
      faults (afe_regmap afe) = replicate k 0 @ e # rest \<longrightarrow> e \<noteq> 0 \<longrightarrow>
      k < 2 * find_first_zero_bit scan_mask masklength + 2 \<longrightarrow>
      (\<exists>afe'. afe4420_update_scan_mode afe scan_mask masklength = (e, afe') \<and>
              used_phases afe' = used_phases afe \<and> faults (afe_regmap afe') = rest))"
proof (intro conjI allI impI)
  fix ret afe'
  assume r: "afe4420_update_scan_mode afe scan_mask masklength = (ret, afe')"
  show "if ret = 0 then used_phases afe' = of_nat (find_first_zero_bit scan_mask masklength)
        else used_phases afe' = used_phases afe"
  proof (cases "ret = 0")
    case True
    with update_scan_mode_used_phases [OF r] show ?thesis by simp
  next
    case False
    with update_scan_mode_used_phases [OF r]
    have "afe' = afe\<lparr>afe_regmap := afe_regmap afe'\<rparr>" by simp
    then have "used_phases afe' = used_phases (afe\<lparr>afe_regmap := afe_regmap afe'\<rparr>)" by simp
    with False show ?thesis by simp
  qed
next
  fix k e rest
  assume h: "faults (afe_regmap afe) = replicate k 0 @ e # rest" "e \<noteq> 0"
    "k < 2 * find_first_zero_bit scan_mask masklength + 2"
  from update_scan_mode_fails [OF h] obtain afe' where
    r: "afe4420_update_scan_mode afe scan_mask masklength = (e, afe')"
    and f: "faults (afe_regmap afe') = rest"
    by blast
  from update_scan_mode_used_phases [OF r] h(2)
  have "afe' = afe\<lparr>afe_regmap := afe_regmap afe'\<rparr>" by simp
  then have "used_phases afe' = used_phases (afe\<lparr>afe_regmap := afe_regmap afe'\<rparr>)" by simp
  with r f show "\<exists>afe'. afe4420_update_scan_mode afe scan_mask masklength = (e, afe') \<and>
              used_phases afe' = used_phases afe \<and> faults (afe_regmap afe') = rest"
    by auto
qed

text \<open>
  The theorem at a transition from two to four phases whose watermark write, the ninth
  access, fails with \<open>-5\<close>: the function returns \<open>-5\<close>, \<open>used_phases\<close> is still 2, and the
  photodiode of the fourth phase has been enabled on the device all the same.
\<close>

theorem update_scan_mode_failure_keeps_used_phases_witness:
  "faults (afe_regmap ((afe4420_instance \<lparr>regs = \<lambda>_. 0, faults = [0, 0, 0, 0, 0, 0, 0, 0, - 5]\<rparr>
                          (\<lambda>b l. (0, b)))\<lparr>used_phases := 2\<rparr>)) = replicate 8 0 @ (- 5) # [] \<and>
   (- 5 :: int) \<noteq> 0 \<and> 8 < 2 * find_first_zero_bit 0xF 16 + 2 \<and>
   (\<exists>afe'. afe4420_update_scan_mode
             ((afe4420_instance \<lparr>regs = \<lambda>_. 0, faults = [0, 0, 0, 0, 0, 0, 0, 0, - 5]\<rparr>
                 (\<lambda>b l. (0, b)))\<lparr>used_phases := 2\<rparr>) 0xF 16 = (- 5, afe') \<and>
           used_phases afe' = 2 \<and> faults (afe_regmap afe') = [] \<and>
           regs (afe_regmap afe') (AFE4420_PHASECNTRL0 3) = 0x10000)"
proof -
  let ?afe = "(afe4420_instance \<lparr>regs = \<lambda>_. 0, faults = [0, 0, 0, 0, 0, 0, 0, 0, - 5]\<rparr>
                 (\<lambda>b l. (0, b)))\<lparr>used_phases := 2\<rparr>"
  have h1: "faults (afe_regmap ?afe) = replicate 8 0 @ (- 5) # []"
    by (simp add: afe4420_instance_def eval_nat_numeral)
  have h2: "(- 5 :: int) \<noteq> 0" by simp
  have h3: "8 < 2 * find_first_zero_bit 0xF 16 + 2" by (simp add: find_first_zero_bit_0xF)
  have u: "used_phases ?afe = 2" by simp
  from update_scan_mode_failure_keeps_used_phases [of ?afe "0xF" 16, THEN conjunct2, rule_format, OF h1 h2 h3]
  obtain afe' where r: "afe4420_update_scan_mode ?afe 0xF 16 = (- 5, afe')"
    and "used_phases afe' = used_phases ?afe" and f: "faults (afe_regmap afe') = []"
    by blast
  with u have up: "used_phases afe' = 2" by simp
  from update_scan_mode_partial_example r have "regs (afe_regmap afe') (AFE4420_PHASECNTRL0 3) = 0x10000" by simp
  with h1 h2 h3 r up f show ?thesis by blast
qed

section \<open>Properties of the sampling interrupt\<close>







lemma push_loop_eq:
  "0 \<le> i \<Longrightarrow>
   push_loop buf p i c =
   map (\<lambda>j. iio_push_to_buffers buf (unat p) (j * (unat p * 4))) [nat i..<nat c]"
proof (induction buf p i c rule: push_loop.induct)
  case (1 buf p i c)
  show ?case
  proof (cases "i < c")
    case False
    with "1.prems" have "nat c \<le> nat i" by simp
    with False show ?thesis by (subst push_loop.simps) simp
  next
    case True
    with "1.prems" have lt: "nat i < nat c" and s: "Suc (nat i) = nat (i + 1)" by simp_all
    from "1.IH" [OF True] "1.prems"
    have "push_loop buf p (i + 1) c =
          map (\<lambda>j. iio_push_to_buffers buf (unat p) (j * (unat p * 4))) [nat (i + 1)..<nat c]"
      by simp
    with True lt s show ?thesis
      by (subst push_loop.simps) (simp add: upt_conv_Cons)
  qed
qed

lemma trigger_handler_read_fails:
  assumes "regmap_read AFE4420_POINTER_DIFF (afe_regmap afe) = (Inl e, rm)"
  shows "afe4420_trigger_handler afe =
         Inr (\<lparr>irq_ret = IRQ_HANDLED, irq_log = [], irq_fifo_len = None, irq_pushed = []\<rparr>,
              afe\<lparr>afe_regmap := rm\<rparr>)"
  using assms by (simp add: afe4420_trigger_handler_def)

lemma trigger_handler_framing:
  assumes "regmap_read AFE4420_POINTER_DIFF (afe_regmap afe) = (Inr reg_val, rm)"
    and "used_phases afe \<noteq> 0"
    and "afe4420_pointer_diff reg_val mod used_phases afe \<noteq> 0"
  shows "afe4420_trigger_handler afe =
         Inr (\<lparr>irq_ret = IRQ_HANDLED,
               irq_log = [''Samples in FIFO not an even multiple of used phases''],
               irq_fifo_len = None, irq_pushed = []\<rparr>,
              afe\<lparr>afe_regmap := rm\<rparr>)"
  using assms by (simp add: afe4420_trigger_handler_def)

lemma trigger_handler_reads_fifo:
  assumes "regmap_read AFE4420_POINTER_DIFF (afe_regmap afe) = (Inr reg_val, rm)"
    and "used_phases afe \<noteq> 0"
    and "afe4420_pointer_diff reg_val mod used_phases afe = 0"
    and "cycles = afe4420_pointer_diff reg_val div used_phases afe"
    and "fifo_read afe (afe_buffer afe) (sint (used_phases afe * cycles * 4)) = (ret, buf)"
  shows "afe4420_trigger_handler afe =
         Inr (\<lparr>irq_ret = IRQ_HANDLED,
               irq_log = (if sint cycles < 10 then [''Early FIFO interrupt'']
                          else if 10 < sint cycles then [''Late FIFO interrupt..''] else []),
               irq_fifo_len = Some (sint (used_phases afe * cycles * 4)),
               irq_pushed = (if ret < 0 then [] else
                  map (\<lambda>j. iio_push_to_buffers buf (unat (used_phases afe))
                              (j * (unat (used_phases afe) * 4))) [0..<nat (sint cycles)])\<rparr>,
              afe\<lparr>afe_regmap := rm, afe_buffer := buf\<rparr>)"
  using assms
  by (simp add: afe4420_trigger_handler_def Let_def AFE4420_FIFO_LEN_def push_loop_eq)



lemma pointer_diff_0x180: "afe4420_pointer_diff 0x180 = - 127"
  by code_simp

lemma pointer_diff_0x80: "afe4420_pointer_diff 0x80 = 129"
  by code_simp

lemma sign_extend32_0x80: "sint (sign_extend32 0x80 8) = 128"
  by code_simp

lemma sign_extend32_0x180: "sint (sign_extend32 0x180 8) = - 128"
  by code_simp

lemma regmap_read_ok:
  "regmap_read r \<lparr>regs = f, faults = []\<rparr> = (Inr (f r), \<lparr>regs = f, faults = []\<rparr>)"
  by (simp add: regmap_read_def bus_request_def)

lemma pointer_diff_39: "afe4420_pointer_diff 39 = 40"
  by code_simp

lemma pointer_diff_40: "afe4420_pointer_diff 40 = 41"
  by code_simp


text \<open>
  C4. The handler validates \<open>pointer_diff\<close>, the sign-extended register plus one, against
  the active phase count, but it computes the remainder and the quotient on
  \<open>unsigned int\<close>. At the register value \<open>0x180\<close> with three active phases the sample
  count is \<open>-127\<close>, which is not a multiple of 3; the handler finds the remainder 0 all
  the same, raises no framing error, takes 1431655723 for the number of cycles, asks the
  transport for \<open>-508\<close> bytes and pushes that many frames.
\<close>

theorem trigger_handler_negative_count:
  "sint (afe4420_pointer_diff 0x180) = - 127 \<and> (- 127 :: int) mod 3 \<noteq> 0 \<and>
   irq_log (fst (projr (afe4420_trigger_handler
      ((afe4420_instance \<lparr>regs = (\<lambda>_. 0)(AFE4420_POINTER_DIFF := 0x180), faults = []\<rparr>
          (\<lambda>b l. (0, b)))\<lparr>used_phases := 3\<rparr>)))) = [''Late FIFO interrupt..''] \<and>
   irq_fifo_len (fst (projr (afe4420_trigger_handler
      ((afe4420_instance \<lparr>regs = (\<lambda>_. 0)(AFE4420_POINTER_DIFF := 0x180), faults = []\<rparr>
          (\<lambda>b l. (0, b)))\<lparr>used_phases := 3\<rparr>)))) = Some (- 508) \<and>
   length (irq_pushed (fst (projr (afe4420_trigger_handler
      ((afe4420_instance \<lparr>regs = (\<lambda>_. 0)(AFE4420_POINTER_DIFF := 0x180), faults = []\<rparr>
          (\<lambda>b l. (0, b)))\<lparr>used_phases := 3\<rparr>))))) = 1431655723"
proof -
  let ?afe = "(afe4420_instance \<lparr>regs = (\<lambda>_. 0)(AFE4420_POINTER_DIFF := 0x180), faults = []\<rparr>
          (\<lambda>b l. (0, b)))\<lparr>used_phases := 3\<rparr>"
  have rd: "regmap_read AFE4420_POINTER_DIFF (afe_regmap ?afe) =
            (Inr 0x180, \<lparr>regs = (\<lambda>_. 0)(AFE4420_POINTER_DIFF := 0x180), faults = []\<rparr>)"
    by (simp add: afe4420_instance_def regmap_read_ok)
  have p: "used_phases ?afe \<noteq> 0" by simp
  have m: "afe4420_pointer_diff 0x180 mod used_phases ?afe = 0"
    by (simp add: pointer_diff_0x180)
  have c: "(1431655723 :: u32) = afe4420_pointer_diff 0x180 div used_phases ?afe"
    by (simp add: pointer_diff_0x180)
  have f: "fifo_read ?afe (afe_buffer ?afe) (sint (used_phases ?afe * 1431655723 * 4)) =
           (0, afe_buffer ?afe)"
    by (simp add: afe4420_instance_def)
  from trigger_handler_reads_fifo [OF rd p m c f]
  show ?thesis by (simp add: pointer_diff_0x180)
qed

text \<open>
  The examples of the spec, read on \<open>pointer_diff\<close> as the handler validates it: 40 with
  four phases is ten cycles and no error, 41 with four phases is a framing error.
\<close>

lemma trigger_handler_spec_examples:
  "sint (afe4420_pointer_diff 39) = 40 \<and>
   irq_log (fst (projr (afe4420_trigger_handler
      ((afe4420_instance \<lparr>regs = (\<lambda>_. 0)(AFE4420_POINTER_DIFF := 39), faults = []\<rparr>
          (\<lambda>b l. (0, b)))\<lparr>used_phases := 4\<rparr>)))) = [] \<and>
   length (irq_pushed (fst (projr (afe4420_trigger_handler
      ((afe4420_instance \<lparr>regs = (\<lambda>_. 0)(AFE4420_POINTER_DIFF := 39), faults = []\<rparr>
          (\<lambda>b l. (0, b)))\<lparr>used_phases := 4\<rparr>))))) = 10 \<and>
   sint (afe4420_pointer_diff 40) = 41 \<and>
   irq_log (fst (projr (afe4420_trigger_handler
      ((afe4420_instance \<lparr>regs = (\<lambda>_. 0)(AFE4420_POINTER_DIFF := 40), faults = []\<rparr>
          (\<lambda>b l. (0, b)))\<lparr>used_phases := 4\<rparr>)))) =
     [''Samples in FIFO not an even multiple of used phases''] \<and>
   irq_pushed (fst (projr (afe4420_trigger_handler
      ((afe4420_instance \<lparr>regs = (\<lambda>_. 0)(AFE4420_POINTER_DIFF := 40), faults = []\<rparr>
          (\<lambda>b l. (0, b)))\<lparr>used_phases := 4\<rparr>)))) = []"
proof -
  let ?a = "(afe4420_instance \<lparr>regs = (\<lambda>_. 0)(AFE4420_POINTER_DIFF := 39), faults = []\<rparr>
          (\<lambda>b l. (0, b)))\<lparr>used_phases := 4\<rparr>"
  let ?b = "(afe4420_instance \<lparr>regs = (\<lambda>_. 0)(AFE4420_POINTER_DIFF := 40), faults = []\<rparr>
          (\<lambda>b l. (0, b)))\<lparr>used_phases := 4\<rparr>"
  have rda: "regmap_read AFE4420_POINTER_DIFF (afe_regmap ?a) =
            (Inr 39, \<lparr>regs = (\<lambda>_. 0)(AFE4420_POINTER_DIFF := 39), faults = []\<rparr>)"
    by (simp add: afe4420_instance_def regmap_read_ok)
  have rdb: "regmap_read AFE4420_POINTER_DIFF (afe_regmap ?b) =
            (Inr 40, \<lparr>regs = (\<lambda>_. 0)(AFE4420_POINTER_DIFF := 40), faults = []\<rparr>)"
    by (simp add: afe4420_instance_def regmap_read_ok)
  have pa: "used_phases ?a \<noteq> 0" and pb: "used_phases ?b \<noteq> 0" by simp_all
  have m: "afe4420_pointer_diff 39 mod used_phases ?a = 0" by (simp add: pointer_diff_39)
  have c: "(10 :: u32) = afe4420_pointer_diff 39 div used_phases ?a" by (simp add: pointer_diff_39)
  have f: "fifo_read ?a (afe_buffer ?a) (sint (used_phases ?a * 10 * 4)) = (0, afe_buffer ?a)"
    by (simp add: afe4420_instance_def)
  have mb: "afe4420_pointer_diff 40 mod used_phases ?b \<noteq> 0" by (simp add: pointer_diff_40)
  from trigger_handler_reads_fifo [OF rda pa m c f] trigger_handler_framing [OF rdb pb mb]
  show ?thesis by (simp add: pointer_diff_39 pointer_diff_40)
qed

lemma not_multiples:
  assumes "2 \<le> p" "p \<le> 16" "p \<noteq> 3"
  shows "129 mod p \<noteq> 0 \<and> 4294967169 mod p \<noteq> (0::nat)"
proof -
  from assms have "p = 2 \<or> p = 4 \<or> p = 5 \<or> p = 6 \<or> p = 7 \<or> p = 8 \<or> p = 9 \<or> p = 10 \<or>
      p = 11 \<or> p = 12 \<or> p = 13 \<or> p = 14 \<or> p = 15 \<or> p = 16"
    by presburger
  then show ?thesis by (elim disjE) simp_all
qed

text \<open>
  Where the handler does raise the framing error at the edge of the sign extension: for
  the register values \<open>0x80\<close> and \<open>0x180\<close> and every active phase count from 2 to 16
  other than 3.
\<close>

lemma trigger_handler_framing_at_edge:
  assumes "regmap_read AFE4420_POINTER_DIFF (afe_regmap afe) = (Inr reg_val, rm)"
    and "reg_val = 0x80 \<or> reg_val = 0x180"
    and "2 \<le> unat (used_phases afe)" and "unat (used_phases afe) \<le> 16"
    and "unat (used_phases afe) \<noteq> 3"
  shows "afe4420_trigger_handler afe =
           Inr (\<lparr>irq_ret = IRQ_HANDLED,
                 irq_log = [''Samples in FIFO not an even multiple of used phases''],
                 irq_fifo_len = None, irq_pushed = []\<rparr>,
                afe\<lparr>afe_regmap := rm\<rparr>)"
proof -
  from assms(3) have p0: "used_phases afe \<noteq> 0" by auto
  have u: "unat (afe4420_pointer_diff reg_val) = 129 \<or>
           unat (afe4420_pointer_diff reg_val) = 4294967169"
    using assms(2) by (auto simp: pointer_diff_0x80 pointer_diff_0x180)
  have "unat (afe4420_pointer_diff reg_val mod used_phases afe) =
        unat (afe4420_pointer_diff reg_val) mod unat (used_phases afe)"
    by (rule unat_mod)
  with u not_multiples [OF assms(3,4,5)]
  have "unat (afe4420_pointer_diff reg_val mod used_phases afe) \<noteq> 0" by auto
  then have "afe4420_pointer_diff reg_val mod used_phases afe \<noteq> 0"
    by (simp only: unat_eq_zero not_False_eq_True)
  from trigger_handler_framing [OF assms(1) p0 this]
  show ?thesis .
qed

text \<open>
  C5. The handler sign-extends the register with bit 8 as the sign, so the raw value
  whose extension is \<open>-128\<close> is \<open>0x180\<close>, while \<open>0x80\<close> extends to \<open>128\<close>. At \<open>0x180\<close> the
  sample count is \<open>-127\<close> and the handler, which checks it on \<open>unsigned int\<close>, raises no
  framing error for it. With three active phases it logs a late interrupt and pushes
  frames, of which the one of index 42 lies outside the buffer of 128 words. With one
  active phase it logs an early interrupt and asks the transport for \<open>-508\<close> bytes. At
  \<open>0x80\<close> with three active phases the count is \<open>129\<close>: the handler asks the transport for
  516 bytes into the buffer of 512 and pushes 43 frames, the last of which lies outside
  the buffer.
\<close>

theorem trigger_handler_minus_127_no_framing_error:
  "sint (sign_extend32 0x180 8) = - 128 \<and> sint (afe4420_pointer_diff 0x180) = - 127 \<and>
   length (afe_buffer ((afe4420_instance \<lparr>regs = (\<lambda>_. 0)(AFE4420_POINTER_DIFF := 0x180), faults = []\<rparr>
          (\<lambda>b l. (0, b)))\<lparr>used_phases := 3\<rparr>)) = 128 \<and>
   irq_log (fst (projr (afe4420_trigger_handler
      ((afe4420_instance \<lparr>regs = (\<lambda>_. 0)(AFE4420_POINTER_DIFF := 0x180), faults = []\<rparr>
          (\<lambda>b l. (0, b)))\<lparr>used_phases := 3\<rparr>)))) = [''Late FIFO interrupt..''] \<and>
   irq_pushed (fst (projr (afe4420_trigger_handler
      ((afe4420_instance \<lparr>regs = (\<lambda>_. 0)(AFE4420_POINTER_DIFF := 0x180), faults = []\<rparr>
          (\<lambda>b l. (0, b)))\<lparr>used_phases := 3\<rparr>)))) ! 42 = None \<and>
   irq_log (fst (projr (afe4420_trigger_handler
      ((afe4420_instance \<lparr>regs = (\<lambda>_. 0)(AFE4420_POINTER_DIFF := 0x180), faults = []\<rparr>
          (\<lambda>b l. (0, b)))\<lparr>used_phases := 1\<rparr>)))) = [''Early FIFO interrupt''] \<and>
   irq_fifo_len (fst (projr (afe4420_trigger_handler
      ((afe4420_instance \<lparr>regs = (\<lambda>_. 0)(AFE4420_POINTER_DIFF := 0x180), faults = []\<rparr>
          (\<lambda>b l. (0, b)))\<lparr>used_phases := 1\<rparr>)))) = Some (- 508) \<and>
   sint (sign_extend32 0x80 8) = 128 \<and> sint (afe4420_pointer_diff 0x80) = 129 \<and>
   irq_log (fst (projr (afe4420_trigger_handler
      ((afe4420_instance \<lparr>regs = (\<lambda>_. 0)(AFE4420_POINTER_DIFF := 0x80), faults = []\<rparr>
          (\<lambda>b l. (0, b)))\<lparr>used_phases := 3\<rparr>)))) = [''Late FIFO interrupt..''] \<and>
   irq_fifo_len (fst (projr (afe4420_trigger_handler
      ((afe4420_instance \<lparr>regs = (\<lambda>_. 0)(AFE4420_POINTER_DIFF := 0x80), faults = []\<rparr>
          (\<lambda>b l. (0, b)))\<lparr>used_phases := 3\<rparr>)))) = Some 516 \<and>
   length (irq_pushed (fst (projr (afe4420_trigger_handler
      ((afe4420_instance \<lparr>regs = (\<lambda>_. 0)(AFE4420_POINTER_DIFF := 0x80), faults = []\<rparr>
          (\<lambda>b l. (0, b)))\<lparr>used_phases := 3\<rparr>))))) = 43 \<and>
   irq_pushed (fst (projr (afe4420_trigger_handler
      ((afe4420_instance \<lparr>regs = (\<lambda>_. 0)(AFE4420_POINTER_DIFF := 0x80), faults = []\<rparr>
          (\<lambda>b l. (0, b)))\<lparr>used_phases := 3\<rparr>)))) ! 42 = None"
proof -
  let ?a = "((afe4420_instance \<lparr>regs = (\<lambda>_. 0)(AFE4420_POINTER_DIFF := 0x180), faults = []\<rparr>
          (\<lambda>b l. (0, b)))\<lparr>used_phases := 3\<rparr>)"
  let ?b = "((afe4420_instance \<lparr>regs = (\<lambda>_. 0)(AFE4420_POINTER_DIFF := 0x180), faults = []\<rparr>
          (\<lambda>b l. (0, b)))\<lparr>used_phases := 1\<rparr>)"
  let ?c = "((afe4420_instance \<lparr>regs = (\<lambda>_. 0)(AFE4420_POINTER_DIFF := 0x80), faults = []\<rparr>
          (\<lambda>b l. (0, b)))\<lparr>used_phases := 3\<rparr>)"
  have rda: "regmap_read AFE4420_POINTER_DIFF (afe_regmap ?a) =
            (Inr 0x180, \<lparr>regs = (\<lambda>_. 0)(AFE4420_POINTER_DIFF := 0x180), faults = []\<rparr>)"
    by (simp add: afe4420_instance_def regmap_read_ok)
  have rdb: "regmap_read AFE4420_POINTER_DIFF (afe_regmap ?b) =
            (Inr 0x180, \<lparr>regs = (\<lambda>_. 0)(AFE4420_POINTER_DIFF := 0x180), faults = []\<rparr>)"
    by (simp add: afe4420_instance_def regmap_read_ok)
  have rdc: "regmap_read AFE4420_POINTER_DIFF (afe_regmap ?c) =
            (Inr 0x80, \<lparr>regs = (\<lambda>_. 0)(AFE4420_POINTER_DIFF := 0x80), faults = []\<rparr>)"
    by (simp add: afe4420_instance_def regmap_read_ok)
  have pa: "used_phases ?a \<noteq> 0" and pb: "used_phases ?b \<noteq> 0" and pc: "used_phases ?c \<noteq> 0"
    by simp_all
  have ma: "afe4420_pointer_diff 0x180 mod used_phases ?a = 0"
    by (simp add: pointer_diff_0x180)
  have mb: "afe4420_pointer_diff 0x180 mod used_phases ?b = 0"
    by simp
  have mc: "afe4420_pointer_diff 0x80 mod used_phases ?c = 0"
    by (simp add: pointer_diff_0x80)
  have ca: "(1431655723 :: u32) = afe4420_pointer_diff 0x180 div used_phases ?a"
    by (simp add: pointer_diff_0x180)
  have cb: "(- 127 :: u32) = afe4420_pointer_diff 0x180 div used_phases ?b"
    by (simp add: pointer_diff_0x180)
  have cc: "(43 :: u32) = afe4420_pointer_diff 0x80 div used_phases ?c"
    by (simp add: pointer_diff_0x80)
  have fa: "fifo_read ?a (afe_buffer ?a) (sint (used_phases ?a * 1431655723 * 4)) =
            (0, afe_buffer ?a)"
    by (simp add: afe4420_instance_def)
  have fb: "fifo_read ?b (afe_buffer ?b) (sint (used_phases ?b * (- 127) * 4)) =
            (0, afe_buffer ?b)"
    by (simp add: afe4420_instance_def)
  have fc: "fifo_read ?c (afe_buffer ?c) (sint (used_phases ?c * 43 * 4)) =
            (0, afe_buffer ?c)"
    by (simp add: afe4420_instance_def)
  have len: "length (afe_buffer ?a) = 128"
    by (simp add: afe4420_instance_def AFE4420_FIFO_MAX_SAMPLES_def)
  have s127: "sint (- 127 :: u32) = - 127" and s508: "sint (- 127 * 4 :: u32) = - 508"
    by code_simp+
  have a: "irq_log (fst (projr (afe4420_trigger_handler ?a))) = [''Late FIFO interrupt..''] \<and>
           irq_pushed (fst (projr (afe4420_trigger_handler ?a))) ! 42 = None"
    unfolding trigger_handler_reads_fifo [OF rda pa ma ca fa]
    by (simp add: iio_push_to_buffers_def afe4420_instance_def AFE4420_FIFO_MAX_SAMPLES_def)
  have b: "irq_log (fst (projr (afe4420_trigger_handler ?b))) = [''Early FIFO interrupt''] \<and>
           irq_fifo_len (fst (projr (afe4420_trigger_handler ?b))) = Some (- 508)"
    unfolding trigger_handler_reads_fifo [OF rdb pb mb cb fb]
    using s127 s508 by simp
  have c: "irq_log (fst (projr (afe4420_trigger_handler ?c))) = [''Late FIFO interrupt..''] \<and>
           irq_fifo_len (fst (projr (afe4420_trigger_handler ?c))) = Some 516 \<and>
           length (irq_pushed (fst (projr (afe4420_trigger_handler ?c)))) = 43 \<and>
           irq_pushed (fst (projr (afe4420_trigger_handler ?c))) ! 42 = None"
    unfolding trigger_handler_reads_fifo [OF rdc pc mc cc fc]
    by (simp add: iio_push_to_buffers_def afe4420_instance_def AFE4420_FIFO_MAX_SAMPLES_def)
  from len a b c show ?thesis
    by (simp add: sign_extend32_0x80 sign_extend32_0x180 pointer_diff_0x80 pointer_diff_0x180)
qed




text \<open>
  What the handler does with a nonzero active phase count: it completes and returns
  \<open>IRQ_HANDLED\<close>; it pushes no frame when the read of the pointer-difference register
  fails, when its own check of \<open>pointer_diff\<close> against the phase count, on
  \<open>unsigned int\<close>, fails, or when the transport read fails; whenever it pushes a frame,
  all three have succeeded.
\<close>

lemma trigger_handler_pushes_only_on_success:
  assumes "used_phases afe \<noteq> 0"
  shows "\<exists>out afe'.
           afe4420_trigger_handler afe = Inr (out, afe') \<and> irq_ret out = IRQ_HANDLED \<and>
           (\<forall>e rm. regmap_read AFE4420_POINTER_DIFF (afe_regmap afe) = (Inl e, rm) \<longrightarrow>
                    irq_pushed out = []) \<and>
           (\<forall>v rm. regmap_read AFE4420_POINTER_DIFF (afe_regmap afe) = (Inr v, rm) \<longrightarrow>
                    afe4420_pointer_diff v mod used_phases afe \<noteq> 0 \<longrightarrow> irq_pushed out = []) \<and>
           (\<forall>v rm. regmap_read AFE4420_POINTER_DIFF (afe_regmap afe) = (Inr v, rm) \<longrightarrow>
                    fst (fifo_read afe (afe_buffer afe)
                           (sint (used_phases afe *
                                  (afe4420_pointer_diff v div used_phases afe) * 4))) < 0 \<longrightarrow>
                    irq_pushed out = []) \<and>
           (irq_pushed out \<noteq> [] \<longrightarrow>
              (\<exists>v rm. regmap_read AFE4420_POINTER_DIFF (afe_regmap afe) = (Inr v, rm) \<and>
                       afe4420_pointer_diff v mod used_phases afe = 0 \<and>
                       0 \<le> fst (fifo_read afe (afe_buffer afe)
                                  (sint (used_phases afe *
                                         (afe4420_pointer_diff v div used_phases afe) * 4)))))"
proof (cases "regmap_read AFE4420_POINTER_DIFF (afe_regmap afe)")
  case (Pair res rm)
  show ?thesis
  proof (cases res)
    case (Inl e)
    with Pair trigger_handler_read_fails [of afe e rm] show ?thesis by simp
  next
    case (Inr v)
    with Pair have rd: "regmap_read AFE4420_POINTER_DIFF (afe_regmap afe) = (Inr v, rm)" by simp
    show ?thesis
    proof (cases "afe4420_pointer_diff v mod used_phases afe = 0")
      case False
      with trigger_handler_framing [OF rd assms] rd show ?thesis by simp
    next
      case True
      define cycles where "cycles = afe4420_pointer_diff v div used_phases afe"
      obtain ret buf where
        ff: "fifo_read afe (afe_buffer afe) (sint (used_phases afe * cycles * 4)) = (ret, buf)"
        by (cases "fifo_read afe (afe_buffer afe) (sint (used_phases afe * cycles * 4))")
      from trigger_handler_reads_fifo [OF rd assms True cycles_def ff] rd True ff
      show ?thesis by (auto simp: cycles_def)
    qed
  qed
qed

lemma trigger_handler_zero_phases:
  assumes "regmap_read AFE4420_POINTER_DIFF (afe_regmap afe) = (Inr reg_val, rm)"
    and "used_phases afe = 0"
  shows "afe4420_trigger_handler afe = Inl Divide_error"
  using assms by (simp add: afe4420_trigger_handler_def)

text \<open>
  C9. Two runs of the handler in which the validation of the sample count fails and
  the handler does not end with no frame pushed and \<open>IRQ_HANDLED\<close> returned. On an
  instance whose active phase count is zero, as the allocation leaves it until the
  first \<open>update_scan_mode\<close>, the register read succeeds, no sample count is a positive
  multiple of zero, and the handler divides by zero in
  \<open>pointer_diff % afe->used_phases\<close>: it does not return \<open>IRQ_HANDLED\<close>. At the register
  value \<open>0x180\<close> with three active phases, the sample count \<open>-127\<close> is not a multiple of
  3, the handler returns \<open>IRQ_HANDLED\<close> and it has pushed 1431655723 frames.
\<close>

theorem trigger_handler_failed_validation_runs:
  "used_phases (afe4420_instance \<lparr>regs = \<lambda>_. 0, faults = []\<rparr> (\<lambda>b l. (0, b))) = 0 \<and>
   regmap_read AFE4420_POINTER_DIFF
     (afe_regmap (afe4420_instance \<lparr>regs = \<lambda>_. 0, faults = []\<rparr> (\<lambda>b l. (0, b)))) =
     (Inr 0, \<lparr>regs = \<lambda>_. 0, faults = []\<rparr>) \<and>
   afe4420_trigger_handler (afe4420_instance \<lparr>regs = \<lambda>_. 0, faults = []\<rparr> (\<lambda>b l. (0, b))) =
     Inl Divide_error \<and>
   sint (afe4420_pointer_diff 0x180) = - 127 \<and> (- 127 :: int) mod 3 \<noteq> 0 \<and>
   irq_ret (fst (projr (afe4420_trigger_handler
      ((afe4420_instance \<lparr>regs = (\<lambda>_. 0)(AFE4420_POINTER_DIFF := 0x180), faults = []\<rparr>
          (\<lambda>b l. (0, b)))\<lparr>used_phases := 3\<rparr>)))) = IRQ_HANDLED \<and>
   length (irq_pushed (fst (projr (afe4420_trigger_handler
      ((afe4420_instance \<lparr>regs = (\<lambda>_. 0)(AFE4420_POINTER_DIFF := 0x180), faults = []\<rparr>
          (\<lambda>b l. (0, b)))\<lparr>used_phases := 3\<rparr>))))) = 1431655723"
proof -
  let ?z = "afe4420_instance \<lparr>regs = \<lambda>_. 0, faults = []\<rparr> (\<lambda>b l. (0, b))"
  let ?a = "((afe4420_instance \<lparr>regs = (\<lambda>_. 0)(AFE4420_POINTER_DIFF := 0x180), faults = []\<rparr>
          (\<lambda>b l. (0, b)))\<lparr>used_phases := 3\<rparr>)"
  have z: "used_phases ?z = 0" by (simp add: afe4420_instance_def)
  have rdz: "regmap_read AFE4420_POINTER_DIFF (afe_regmap ?z) =
             (Inr 0, \<lparr>regs = \<lambda>_. 0, faults = []\<rparr>)"
    by (simp add: afe4420_instance_def regmap_read_ok)
  have rda: "regmap_read AFE4420_POINTER_DIFF (afe_regmap ?a) =
            (Inr 0x180, \<lparr>regs = (\<lambda>_. 0)(AFE4420_POINTER_DIFF := 0x180), faults = []\<rparr>)"
    by (simp add: afe4420_instance_def regmap_read_ok)
  have pa: "used_phases ?a \<noteq> 0" by simp
  have ma: "afe4420_pointer_diff 0x180 mod used_phases ?a = 0"
    by (simp add: pointer_diff_0x180)
  have ca: "(1431655723 :: u32) = afe4420_pointer_diff 0x180 div used_phases ?a"
    by (simp add: pointer_diff_0x180)
  have fa: "fifo_read ?a (afe_buffer ?a) (sint (used_phases ?a * 1431655723 * 4)) =
            (0, afe_buffer ?a)"
    by (simp add: afe4420_instance_def)
  have a: "irq_ret (fst (projr (afe4420_trigger_handler ?a))) = IRQ_HANDLED \<and>
           length (irq_pushed (fst (projr (afe4420_trigger_handler ?a)))) = 1431655723"
    unfolding trigger_handler_reads_fifo [OF rda pa ma ca fa] by simp
  from z rdz trigger_handler_zero_phases [OF rdz z] a show ?thesis
    by (simp add: pointer_diff_0x180)
qed
end
